theory Spec2Isabelle
  imports Complex_Main "HOL-Library.Multiset" "HOL-Library.Sublist"
begin

section \<open>The from-scratch compressor (compression/scratch.py)\<close>

text \<open>
  Scores are numpy floating-point arrays in the source; here they are lists of reals, so
  infinities and NaN are outside the model, and so is the rounding of the score
  arithmetic. The two floating-point products whose integer part or comparison decides
  how many tokens or sentences are taken, \<open>orig_tokens * target\<close> and
  \<open>chunk_size * 0.8\<close>, go through the parameter \<open>float_mul\<close>, the rounded product of the
  machine. Python integers are \<open>int\<close>, lengths are \<open>nat\<close>, a character is a code point
  below 256.
\<close>

subsection \<open>Data model\<close>

datatype py_error = ValueError | ZeroDivisionError | IndexError

record CompressorConfig =
  encoder_model :: string
  use_query_aware :: bool
  attention_weight :: real
  semantic_weight :: real
  query_weight :: real
  target_ratio :: real
  min_tokens :: int
  hard_threshold :: real
  layer_weighting :: string
  preserve_structure :: bool
  chunk_size :: int
  use_position_bias :: bool
  position_boost_start :: real
  position_boost_end :: real

definition default_config :: CompressorConfig where
  "default_config =
     \<lparr> encoder_model = ''distilbert-base-uncased'', use_query_aware = True,
       attention_weight = 0.4, semantic_weight = 0.3, query_weight = 0.3,
       target_ratio = 0.34, min_tokens = 50, hard_threshold = 0,
       layer_weighting = ''linear'', preserve_structure = True, chunk_size = 450,
       use_position_bias = True, position_boost_start = 1.2, position_boost_end = 1.1 \<rparr>"

record CompressionResult =
  original_text :: string
  compressed_text :: string
  original_tokens :: nat
  compressed_tokens :: nat
  token_scores :: "real list"
  kept_indices :: "nat list"
  compression_ratio :: real

text \<open>
  The collaborators that \<open>TokenImportanceScorer.__init__\<close> loads from external libraries
  are parameters of the model: the encoder's tokenizer (called with truncation at
  \<open>max_length\<close>; it returns each token with its id), the two per-token signal arrays that
  \<open>_get_attention_scores\<close> (which reads the configured layer weighting) and
  \<open>_get_semantic_scores\<close> compute from the encoder's forward pass, the array
  \<open>_get_query_scores\<close> computes with the sentence-embedding model, the tokenizer's special
  ids and detokenizer, and the tiktoken counter behind \<open>count_tokens\<close>. The last field is
  the floating-point product.
\<close>

record scorer_env =
  tokenizer :: "string \<Rightarrow> int \<Rightarrow> (string \<times> nat) list"
  attention_scores :: "string \<Rightarrow> int \<Rightarrow> string \<Rightarrow> real list"
  semantic_scores :: "string \<Rightarrow> int \<Rightarrow> real list"
  query_scores :: "string \<Rightarrow> string \<Rightarrow> string list \<Rightarrow> real list"
  all_special_ids :: "nat list"
  convert_tokens_to_string :: "string list \<Rightarrow> string"
  count_tokens :: "string \<Rightarrow> nat"
  float_mul :: "real \<Rightarrow> real \<Rightarrow> real"

subsection \<open>Strings: whitespace and regular-expression helpers\<close>

text \<open>
  Whitespace as \<open>str.split\<close>, \<open>str.strip\<close> and the pattern \<open>\s\<close> see it, among the code points
  below 256: 9 to 13, 28 to 32, 133 and 160.
\<close>

definition is_space :: "char \<Rightarrow> bool" where
  "is_space c = (let k = of_char c :: nat in
     (9 \<le> k \<and> k \<le> 13) \<or> (28 \<le> k \<and> k \<le> 32) \<or> k = 133 \<or> k = 160)"

text \<open>The character class \<open>[a-zA-Z0-9]\<close>.\<close>

definition is_alnum :: "char \<Rightarrow> bool" where
  "is_alnum c = (let k = of_char c :: nat in
     (48 \<le> k \<and> k \<le> 57) \<or> (65 \<le> k \<and> k \<le> 90) \<or> (97 \<le> k \<and> k \<le> 122))"

text \<open>\<open>str.strip()\<close>\<close>

definition strip :: "string \<Rightarrow> string" where
  "strip s = rev (dropWhile is_space (rev (dropWhile is_space s)))"

text \<open>\<open>re.sub(r'\s+', ' ', s)\<close>: every maximal run of whitespace becomes one space.\<close>

fun collapse_ws :: "bool \<Rightarrow> string \<Rightarrow> string" where
  "collapse_ws in_run [] = []"
| "collapse_ws in_run (c # cs) =
     (if is_space c then (if in_run then collapse_ws True cs else CHR '' '' # collapse_ws True cs)
      else c # collapse_ws False cs)"

text \<open>\<open>' '.join(xs)\<close>\<close>

fun join_sp :: "string list \<Rightarrow> string" where
  "join_sp [] = []"
| "join_sp [x] = x"
| "join_sp (x # y # ys) = x @ CHR '' '' # join_sp (y # ys)"

text \<open>\<open>str.split()\<close> with no argument: the maximal runs of non-whitespace.\<close>

fun py_split :: "string \<Rightarrow> string \<Rightarrow> string list" where
  "py_split w [] = (if w = [] then [] else [rev w])"
| "py_split w (c # cs) =
     (if is_space c then (if w = [] then py_split [] cs else rev w # py_split [] cs)
      else py_split (c # w) cs)"

definition split_words :: "string \<Rightarrow> string list" where
  "split_words s = py_split [] s"

subsection \<open>numpy helpers\<close>

text \<open>\<open>x.max()\<close> and \<open>x.min()\<close>; both raise \<open>ValueError\<close> on an empty array.\<close>

fun np_max :: "real list \<Rightarrow> py_error + real" where
  "np_max [] = Inl ValueError"
| "np_max (x # xs) = Inr (fold max xs x)"

fun np_min :: "real list \<Rightarrow> py_error + real" where
  "np_min [] = Inl ValueError"
| "np_min (x # xs) = Inr (fold min xs x)"

text \<open>
  Elementwise addition of two arrays; numpy raises \<open>ValueError\<close> when the shapes differ
  (broadcasting of a length-one array is not modelled).
\<close>

definition np_add :: "real list \<Rightarrow> real list \<Rightarrow> py_error + real list" where
  "np_add xs ys = (if length xs = length ys then Inr (map2 (+) xs ys) else Inl ValueError)"

definition np_scale :: "real \<Rightarrow> real list \<Rightarrow> real list" where
  "np_scale c xs = map (\<lambda>x. c * x) xs"

text \<open>\<open>a[i]\<close> for an integer index: negative indices count from the end.\<close>

definition np_index :: "'a list \<Rightarrow> int \<Rightarrow> py_error + 'a" where
  "np_index xs i =
     (let n = int (length xs) in
      if 0 \<le> i \<and> i < n then Inr (xs ! nat i)
      else if - n \<le> i \<and> i < 0 then Inr (xs ! nat (n + i))
      else Inl IndexError)"

text \<open>\<open>int(x)\<close> of a float: truncation towards zero.\<close>

definition py_int :: "real \<Rightarrow> int" where
  "py_int x = (if 0 \<le> x then \<lfloor>x\<rfloor> else \<lceil>x\<rceil>)"

subsection \<open>TokenImportanceScorer\<close>

text \<open>The local function \<open>normalize\<close> of \<open>score_tokens\<close>.\<close>

definition normalize :: "real list \<Rightarrow> py_error + real list" where
  "normalize x =
     (case np_max x of Inl e \<Rightarrow> Inl e | Inr mx \<Rightarrow>
      case np_min x of Inl e \<Rightarrow> Inl e | Inr mn \<Rightarrow>
        if mx = mn then Inr (replicate (length x) 1)
        else Inr (map (\<lambda>v. (v - mn) / (mx - mn + 1 / 10 ^ 8)) x))"

text \<open>
  \<open>_apply_position_bias\<close>: the weights start as ones; the slice before
  \<open>int(n * 0.1)\<close> is set to the start boost, then the slice from \<open>int(n * 0.9)\<close> on
  is set to the end boost.
\<close>

definition slice_assign_prefix :: "nat \<Rightarrow> real \<Rightarrow> real list \<Rightarrow> real list" where
  "slice_assign_prefix k v ws = replicate (min k (length ws)) v @ drop k ws"

definition slice_assign_suffix :: "nat \<Rightarrow> real \<Rightarrow> real list \<Rightarrow> real list" where
  "slice_assign_suffix k v ws = take k ws @ replicate (length ws - k) v"

definition position_weights :: "CompressorConfig \<Rightarrow> nat \<Rightarrow> real list" where
  "position_weights cfg n =
     (let start_region = nat (py_int (real n * 0.1));
          end_region = nat (py_int (real n * 0.9))
      in slice_assign_suffix end_region (position_boost_end cfg)
           (slice_assign_prefix start_region (position_boost_start cfg) (replicate n 1)))"

definition apply_position_bias :: "CompressorConfig \<Rightarrow> real list \<Rightarrow> real list" where
  "apply_position_bias cfg scores =
     (let n = length scores in
      if n < 10 then scores
      else map2 (*) scores (position_weights cfg n))"

text \<open>
  The penalty loop over \<open>enumerate(zip(tokens, token_ids))\<close>; writing \<open>scores[i]\<close>
  beyond the array raises \<open>IndexError\<close>.
\<close>

definition penalty :: "nat list \<Rightarrow> string \<Rightarrow> nat \<Rightarrow> real \<Rightarrow> real" where
  "penalty special_ids tok tid s =
     (if tid \<in> set special_ids then 0
      else if \<not> (\<exists>c \<in> set tok. is_alnum c) then s * 0.5
      else if take 2 tok = ''##'' then s * 0.8
      else s)"

fun penalize :: "nat list \<Rightarrow> (string \<times> nat) list \<Rightarrow> real list \<Rightarrow> py_error + real list" where
  "penalize special_ids [] scores = Inr scores"
| "penalize special_ids ((tok, tid) # ts) [] = Inl IndexError"
| "penalize special_ids ((tok, tid) # ts) (s # scores) =
     (case penalize special_ids ts scores of
        Inl e \<Rightarrow> Inl e
      | Inr rest \<Rightarrow> Inr (penalty special_ids tok tid s # rest))"

text \<open>A query is used when it is truthy: neither \<open>None\<close> nor the empty string.\<close>

definition query_given :: "string option \<Rightarrow> bool" where
  "query_given query = (case query of None \<Rightarrow> False | Some q \<Rightarrow> q \<noteq> [])"

definition fuse :: "scorer_env \<Rightarrow> CompressorConfig \<Rightarrow> string \<Rightarrow> string option \<Rightarrow>
    string list \<Rightarrow> real list \<Rightarrow> real list \<Rightarrow> py_error + real list" where
  "fuse env cfg text query tokens attn sem =
     (if query_given query \<and> use_query_aware cfg then
        (case normalize (query_scores env text (the query) tokens) of
           Inl e \<Rightarrow> Inl e
         | Inr qs \<Rightarrow>
            (case np_add (np_scale (attention_weight cfg) attn)
                    (np_scale (semantic_weight cfg) sem) of
               Inl e \<Rightarrow> Inl e
             | Inr s2 \<Rightarrow> np_add s2 (np_scale (query_weight cfg) qs)))
      else
        (let total = attention_weight cfg + semantic_weight cfg in
         if total = 0 then Inl ZeroDivisionError
         else np_add (np_scale (attention_weight cfg / total) attn)
                (np_scale (semantic_weight cfg / total) sem)))"

definition score_tokens :: "scorer_env \<Rightarrow> CompressorConfig \<Rightarrow> string \<Rightarrow> string option \<Rightarrow>
    py_error + (real list \<times> string list \<times> nat list)" where
  "score_tokens env cfg text query =
     (let toks = tokenizer env text (chunk_size cfg);
          tokens = map fst toks;
          token_ids = map snd toks
      in case normalize (attention_scores env text (chunk_size cfg) (layer_weighting cfg)) of
           Inl e \<Rightarrow> Inl e | Inr attn \<Rightarrow>
         case normalize (semantic_scores env text (chunk_size cfg)) of Inl e \<Rightarrow> Inl e | Inr sem \<Rightarrow>
         case fuse env cfg text query tokens attn sem of Inl e \<Rightarrow> Inl e | Inr fused \<Rightarrow>
         case penalize (all_special_ids env) toks
                (if use_position_bias cfg then apply_position_bias cfg fused else fused) of
           Inl e \<Rightarrow> Inl e
         | Inr scores \<Rightarrow>
         case normalize scores of Inl e \<Rightarrow> Inl e | Inr final \<Rightarrow>
           Inr (final, tokens, token_ids))"

subsection \<open>ScratchCompressor.compress\<close>

text \<open>\<open>target_ratio or self.config.target_ratio\<close>: \<open>None\<close> and \<open>0.0\<close> are falsy.\<close>

definition effective_target :: "CompressorConfig \<Rightarrow> real option \<Rightarrow> real" where
  "effective_target cfg override =
     (case override of None \<Rightarrow> target_ratio cfg
      | Some r \<Rightarrow> if r = 0 then target_ratio cfg else r)"

definition keep_count :: "scorer_env \<Rightarrow> CompressorConfig \<Rightarrow> real \<Rightarrow> nat \<Rightarrow> int" where
  "keep_count env cfg target orig_tokens =
     max (min_tokens cfg) (py_int (float_mul env (real orig_tokens) target))"

text \<open>\<open>np.sort(scores)[::-1]\<close>\<close>

definition sorted_desc :: "real list \<Rightarrow> real list" where
  "sorted_desc scores = rev (sort scores)"

definition find_threshold :: "CompressorConfig \<Rightarrow> real list \<Rightarrow> int \<Rightarrow> nat \<Rightarrow> py_error + real" where
  "find_threshold cfg scores k orig_tokens =
     (if k \<ge> int orig_tokens then Inr 0
      else case np_index (sorted_desc scores) (k - 1) of
             Inl e \<Rightarrow> Inl e
           | Inr v \<Rightarrow> Inr (max v (hard_threshold cfg)))"

text \<open>\<open>[i for i, s in enumerate(scores) if s >= threshold]\<close>\<close>

definition select_indices :: "real list \<Rightarrow> real \<Rightarrow> nat list" where
  "select_indices scores threshold =
     map fst (filter (\<lambda>(i, s). s \<ge> threshold) (enumerate 0 scores))"

text \<open>\<open>[tokens[i] for i in kept_indices]\<close>; an index beyond the list raises.\<close>

fun gather :: "'a list \<Rightarrow> nat list \<Rightarrow> py_error + 'a list" where
  "gather tokens [] = Inr []"
| "gather tokens (i # is) =
     (if i < length tokens then
        (case gather tokens is of Inl e \<Rightarrow> Inl e | Inr r \<Rightarrow> Inr (tokens ! i # r))
      else Inl IndexError)"

definition clean_up :: "string \<Rightarrow> string" where
  "clean_up s = strip (collapse_ws False s)"

definition ratio_of :: "nat \<Rightarrow> nat \<Rightarrow> real" where
  "ratio_of comp_count orig_count = (if orig_count > 0 then real comp_count / real orig_count else 1)"

definition compress :: "scorer_env \<Rightarrow> CompressorConfig \<Rightarrow> string \<Rightarrow> string option \<Rightarrow>
    real option \<Rightarrow> py_error + CompressionResult" where
  "compress env cfg text query override =
     (let target = effective_target cfg override in
      case score_tokens env cfg text query of Inl e \<Rightarrow> Inl e | Inr (scores, tokens, token_ids) \<Rightarrow>
        let orig_tokens = length tokens;
            k = keep_count env cfg target orig_tokens
        in case find_threshold cfg scores k orig_tokens of Inl e \<Rightarrow> Inl e | Inr threshold \<Rightarrow>
           let kept = select_indices scores threshold
           in case gather tokens kept of Inl e \<Rightarrow> Inl e | Inr kept_tokens \<Rightarrow>
              let compressed = clean_up (convert_tokens_to_string env kept_tokens);
                  comp_tokens = count_tokens env compressed;
                  orig_count = count_tokens env text
              in Inr \<lparr> original_text = text, compressed_text = compressed,
                       original_tokens = orig_count, compressed_tokens = comp_tokens,
                       token_scores = scores, kept_indices = kept,
                       compression_ratio = ratio_of comp_tokens orig_count \<rparr>)"

subsection \<open>ScratchCompressor.compress_chunks\<close>

definition is_terminal :: "char \<Rightarrow> bool" where
  "is_terminal c = (c = CHR ''.'' \<or> c = CHR ''!'' \<or> c = CHR ''?'')"

text \<open>
  \<open>re.split(r'(?<=[.!?])\s+', text)\<close>: a separator is a maximal run of whitespace that
  directly follows a terminal punctuation mark. \<open>in_sep\<close> says the scan is inside a
  separator, \<open>after_term\<close> that the previous character is terminal punctuation, \<open>cur\<close> is the
  piece read so far (reversed). The last piece is always emitted, also when it is empty.
\<close>

fun split_sentences_aux :: "bool \<Rightarrow> bool \<Rightarrow> string \<Rightarrow> string \<Rightarrow> string list" where
  "split_sentences_aux in_sep after_term cur [] = [rev cur]"
| "split_sentences_aux in_sep after_term cur (c # cs) =
     (if is_space c \<and> in_sep then split_sentences_aux True False cur cs
      else if is_space c \<and> after_term then rev cur # split_sentences_aux True False [] cs
      else split_sentences_aux False (is_terminal c) (c # cur) cs)"

definition split_sentences :: "string \<Rightarrow> string list" where
  "split_sentences text = split_sentences_aux False False [] text"

text \<open>
  The packing loop over the sentences; its state is \<open>(chunks, current_chunk, current_len)\<close>.
\<close>

fun pack_sentences :: "real \<Rightarrow> string list \<Rightarrow> string list \<times> string list \<times> nat \<Rightarrow>
    string list \<times> string list \<times> nat" where
  "pack_sentences limit [] st = st"
| "pack_sentences limit (sent # rest) (chunks, current_chunk, current_len) =
     (let sent_len = length (split_words sent) in
      if real (current_len + sent_len) > limit then
        pack_sentences limit rest
          (if current_chunk \<noteq> [] then chunks @ [join_sp current_chunk] else chunks,
           [sent], sent_len)
      else pack_sentences limit rest (chunks, current_chunk @ [sent], current_len + sent_len))"

definition chunk_limit :: "scorer_env \<Rightarrow> CompressorConfig \<Rightarrow> real" where
  "chunk_limit env cfg = float_mul env (real_of_int (chunk_size cfg)) 0.8"

definition make_chunks :: "scorer_env \<Rightarrow> CompressorConfig \<Rightarrow> string \<Rightarrow> string list" where
  "make_chunks env cfg text =
     (case pack_sentences (chunk_limit env cfg) (split_sentences text) ([], [], 0) of
        (chunks, current_chunk, current_len) \<Rightarrow>
          if current_chunk \<noteq> [] then chunks @ [join_sp current_chunk] else chunks)"

text \<open>
  The loop that compresses each chunk; its state is
  \<open>(compressed_chunks, total_orig, total_comp)\<close>. An exception of \<open>compress\<close> ends it.
\<close>

fun compress_each :: "scorer_env \<Rightarrow> CompressorConfig \<Rightarrow> string option \<Rightarrow> real option \<Rightarrow>
    string list \<Rightarrow> string list \<times> nat \<times> nat \<Rightarrow> py_error + (string list \<times> nat \<times> nat)" where
  "compress_each env cfg query override [] st = Inr st"
| "compress_each env cfg query override (chunk # rest) (compressed_chunks, total_orig, total_comp) =
     (case compress env cfg chunk query override of
        Inl e \<Rightarrow> Inl e
      | Inr result \<Rightarrow>
          compress_each env cfg query override rest
            (compressed_chunks @ [compressed_text result],
             total_orig + original_tokens result,
             total_comp + compressed_tokens result))"

definition compress_chunks :: "scorer_env \<Rightarrow> CompressorConfig \<Rightarrow> string \<Rightarrow> string option \<Rightarrow>
    real option \<Rightarrow> py_error + CompressionResult" where
  "compress_chunks env cfg text query override =
     (case compress_each env cfg query override (make_chunks env cfg text) ([], 0, 0) of
        Inl e \<Rightarrow> Inl e
      | Inr (compressed_chunks, total_orig, total_comp) \<Rightarrow>
          Inr \<lparr> original_text = text, compressed_text = join_sp compressed_chunks,
                original_tokens = total_orig, compressed_tokens = total_comp,
                token_scores = [], kept_indices = [],
                compression_ratio = ratio_of total_comp total_orig \<rparr>)"


section \<open>Answer extraction of the benchmark harness (compression/longbench.py)\<close>

subsection \<open>The regular expressions\<close>

text \<open>
  The patterns of \<open>verify_answer\<close> use character classes, greedy \<open>*\<close> and \<open>?\<close> on a
  class, one capturing group around a class, \<open>\b\<close> and \<open>^\<close>. A pattern is a list of such
  items.
\<close>

datatype re_item =
    One "char \<Rightarrow> bool"
  | Star "char \<Rightarrow> bool"
  | Opt "char \<Rightarrow> bool"
  | Group "char \<Rightarrow> bool"
  | WordBoundary
  | StartOfString

definition is_word :: "char \<Rightarrow> bool" where
  "is_word c = (is_alnum c \<or> c = CHR ''_'')"

definition word_before :: "char option \<Rightarrow> bool" where
  "word_before prev = (case prev of None \<Rightarrow> False | Some c \<Rightarrow> is_word c)"

definition word_after :: "string \<Rightarrow> bool" where
  "word_after s = (case s of [] \<Rightarrow> False | c # cs \<Rightarrow> is_word c)"

text \<open>
  \<open>re_match items prev s cap\<close> matches the items at the current position, where \<open>prev\<close>
  is the character before it (\<open>None\<close> at the start of the string), \<open>s\<close> the rest of the
  string and \<open>cap\<close> the group captured so far. It returns the captured group of the first
  successful alternative of the backtracking search: a greedy item first tries to consume.
\<close>

fun re_match :: "re_item list \<Rightarrow> char option \<Rightarrow> string \<Rightarrow> char option \<Rightarrow> char option option" where
  "re_match [] prev s cap = Some cap"
| "re_match (One p # r) prev [] cap = None"
| "re_match (One p # r) prev (c # cs) cap = (if p c then re_match r (Some c) cs cap else None)"
| "re_match (Group p # r) prev [] cap = None"
| "re_match (Group p # r) prev (c # cs) cap =
     (if p c then re_match r (Some c) cs (Some c) else None)"
| "re_match (Opt p # r) prev [] cap = re_match r prev [] cap"
| "re_match (Opt p # r) prev (c # cs) cap =
     (if p c then
        (case re_match r (Some c) cs cap of
           Some res \<Rightarrow> Some res
         | None \<Rightarrow> re_match r prev (c # cs) cap)
      else re_match r prev (c # cs) cap)"
| "re_match (Star p # r) prev [] cap = re_match r prev [] cap"
| "re_match (Star p # r) prev (c # cs) cap =
     (if p c then
        (case re_match (Star p # r) (Some c) cs cap of
           Some res \<Rightarrow> Some res
         | None \<Rightarrow> re_match r prev (c # cs) cap)
      else re_match r prev (c # cs) cap)"
| "re_match (WordBoundary # r) prev s cap =
     (if word_before prev \<noteq> word_after s then re_match r prev s cap else None)"
| "re_match (StartOfString # r) prev s cap =
     (if prev = None then re_match r prev s cap else None)"

text \<open>\<open>re.search\<close>: the match at the leftmost position where the pattern matches.\<close>

fun re_search_from :: "re_item list \<Rightarrow> char option \<Rightarrow> string \<Rightarrow> char option option" where
  "re_search_from items prev [] = re_match items prev [] None"
| "re_search_from items prev (c # cs) =
     (case re_match items prev (c # cs) None of
        Some res \<Rightarrow> Some res
      | None \<Rightarrow> re_search_from items (Some c) cs)"

definition re_search :: "re_item list \<Rightarrow> string \<Rightarrow> char option option" where
  "re_search items s = re_search_from items None s"

definition lit :: "string \<Rightarrow> re_item list" where
  "lit s = map (\<lambda>c. One (\<lambda>d. d = c)) s"

definition letter_AD :: "char \<Rightarrow> bool" where
  "letter_AD c = (c = CHR ''A'' \<or> c = CHR ''B'' \<or> c = CHR ''C'' \<or> c = CHR ''D'')"

definition pat_paren :: "re_item list" where
  "pat_paren = lit ''('' @ [Group letter_AD] @ lit '')''"

definition pat_letter_period :: "re_item list" where
  "pat_letter_period = [WordBoundary, Group letter_AD] @ lit ''.''"

definition pat_option :: "re_item list" where
  "pat_option = lit ''OPTION'' @ [Star (\<lambda>c. c = CHR '':'' \<or> is_space c),
     Opt (\<lambda>c. c = CHR ''(''), Group letter_AD, Opt (\<lambda>c. c = CHR '')'')]"

definition pat_answer :: "re_item list" where
  "pat_answer = lit ''ANSWER'' @ [Star (\<lambda>c. c = CHR '':'' \<or> is_space c),
     Opt (\<lambda>c. c = CHR ''(''), Group letter_AD, Opt (\<lambda>c. c = CHR '')'')]"

definition pat_correct :: "re_item list" where
  "pat_correct = lit ''CORRECT'' @ [Star (\<lambda>c. \<not> letter_AD c), Group letter_AD]"

definition pat_start :: "re_item list" where
  "pat_start = [StartOfString, Star is_space, Group letter_AD, WordBoundary]"

definition pat_standalone :: "re_item list" where
  "pat_standalone = [WordBoundary, Group letter_AD, WordBoundary]"

definition patterns :: "re_item list list" where
  "patterns = [pat_paren, pat_letter_period, pat_option, pat_answer, pat_correct,
     pat_start, pat_standalone]"

subsection \<open>verify_answer\<close>

definition to_upper :: "char \<Rightarrow> char" where
  "to_upper c =
     (case map_of (zip ''abcdefghijklmnopqrstuvwxyz'' ''ABCDEFGHIJKLMNOPQRSTUVWXYZ'') c of
        Some u \<Rightarrow> u
      | None \<Rightarrow> c)"

definition upper :: "string \<Rightarrow> string" where
  "upper s = map to_upper s"

text \<open>\<open>re.sub(r'\*+', '', predicted)\<close> deletes every asterisk.\<close>

definition remove_stars :: "string \<Rightarrow> string" where
  "remove_stars s = filter (\<lambda>c. c \<noteq> CHR ''*'') s"

text \<open>The loop over the patterns: the first one that matches returns.\<close>

fun try_patterns :: "re_item list list \<Rightarrow> string \<Rightarrow> string \<Rightarrow> bool" where
  "try_patterns [] predicted_upper gold_upper = False"
| "try_patterns (pattern # rest) predicted_upper gold_upper =
     (case re_search pattern predicted_upper of
        Some m \<Rightarrow> (case m of Some g \<Rightarrow> [g] = gold_upper | None \<Rightarrow> False)
      | None \<Rightarrow> try_patterns rest predicted_upper gold_upper)"

definition verify_answer :: "string \<Rightarrow> string \<Rightarrow> bool" where
  "verify_answer predicted gold =
     (let predicted_upper = strip (upper (remove_stars predicted));
          gold_upper = strip (upper gold)
      in if predicted_upper \<in> set [''A'', ''B'', ''C'', ''D''] then predicted_upper = gold_upper
         else try_patterns patterns predicted_upper gold_upper)"

section \<open>An example environment\<close>

text \<open>
  A concrete stand-in for the external collaborators, to run the model on inputs. The
  tokenizer wraps the lower-cased words of the text in the structural tokens \<open>[CLS]\<close> and
  \<open>[SEP]\<close> (ids 101 and 102) and truncates to \<open>max_length\<close> tokens, and the detokenizer is
  \<open>" ".join(tokens).replace(" ##", "").strip()\<close>, both as the BERT tokenizers of the
  default encoder do. The attention signal of a token is its length, its semantic signal
  decreases with its position, the query signal is constant, the counter counts words,
  and the product is exact (on the inputs of the examples the rounded product has the same
  integer part and the same comparisons as the exact one).
\<close>

definition to_lower :: "char \<Rightarrow> char" where
  "to_lower c =
     (case map_of (zip ''ABCDEFGHIJKLMNOPQRSTUVWXYZ'' ''abcdefghijklmnopqrstuvwxyz'') c of
        Some l \<Rightarrow> l
      | None \<Rightarrow> c)"

fun remove_continuation :: "string \<Rightarrow> string" where
  "remove_continuation (a # b # c # cs) =
     (if a = CHR '' '' \<and> b = CHR ''#'' \<and> c = CHR ''#'' then remove_continuation cs
      else a # remove_continuation (b # c # cs))"
| "remove_continuation cs = cs"

definition example_tokenizer :: "string \<Rightarrow> int \<Rightarrow> (string \<times> nat) list" where
  "example_tokenizer text max_length =
     (''[CLS]'', 101) #
     map (\<lambda>w. (w, 1000 + length w)) (take (nat (max_length - 2)) (split_words (map to_lower text)))
     @ [(''[SEP]'', 102)]"

definition example_env :: scorer_env where
  "example_env =
     \<lparr> tokenizer = example_tokenizer,
       attention_scores = (\<lambda>text max_length weighting.
          map (\<lambda>(tok, tid). real (length tok)) (example_tokenizer text max_length)),
       semantic_scores = (\<lambda>text max_length.
          map (\<lambda>i. 1 / (1 + real i)) [0..<length (example_tokenizer text max_length)]),
       query_scores = (\<lambda>text query tokens. replicate (length tokens) (1 / 2)),
       all_special_ids = [100, 102, 0, 101, 103],
       convert_tokens_to_string = (\<lambda>tokens. strip (remove_continuation (join_sp tokens))),
       count_tokens = (\<lambda>s. length (split_words s)),
       float_mul = (\<lambda>x y. x * y) \<rparr>"

text \<open>
  The \<open>k\<close>-th largest value of an array, as an order statistic: a value of the array with
  fewer than \<open>k\<close> entries above it and at least \<open>k\<close> entries at or above it.
\<close>

definition is_kth_largest :: "nat \<Rightarrow> real list \<Rightarrow> real \<Rightarrow> bool" where
  "is_kth_largest k xs v =
     (v \<in> set xs \<and> length (filter (\<lambda>x. v < x) xs) < k \<and> k \<le> length (filter (\<lambda>x. v \<le> x) xs))"

text \<open>
  The shapes the external libraries guarantee: the encoder returns one attention and one
  semantic value per token, for at least one token, and the query array has one value per
  token; without a query the two remaining weights must not sum to zero.
\<close>

definition well_shaped :: "scorer_env \<Rightarrow> CompressorConfig \<Rightarrow> string \<Rightarrow> string option \<Rightarrow> bool" where
  "well_shaped env cfg text query =
     (let n = length (tokenizer env text (chunk_size cfg)) in
      0 < n \<and> length (attention_scores env text (chunk_size cfg) (layer_weighting cfg)) = n \<and>
      length (semantic_scores env text (chunk_size cfg)) = n \<and>
      (if query_given query \<and> use_query_aware cfg
       then length (query_scores env text (the query)
              (map fst (tokenizer env text (chunk_size cfg)))) = n
       else attention_weight cfg + semantic_weight cfg \<noteq> 0))"

text \<open>The result of compressing \<open>The cat sat down\<close> with \<open>min_tokens = 1\<close>.\<close>

definition example_result :: CompressionResult where
  "example_result =
     \<lparr> original_text = ''The cat sat down'', compressed_text = ''the down'',
       original_tokens = 4, compressed_tokens = 2,
       token_scores =
         [0, 6000000030000000000000000 / 10600000473000005950000021,
          3000000015000000000000000 / 10600000473000005950000021,
          1500000007500000000000000 / 10600000473000005950000021,
          10600000123000000000000000 / 10600000473000005950000021, 0],
       kept_indices = [1, 4], compression_ratio = 1 / 2 \<rparr>"

text \<open>
  The same text with the default configuration (\<open>min_tokens = 50\<close>): every token is kept.
\<close>

definition example_result_all :: CompressionResult where
  "example_result_all =
     \<lparr> original_text = ''The cat sat down'', compressed_text = ''[CLS] the cat sat down [SEP]'',
       original_tokens = 4, compressed_tokens = 6,
       token_scores = token_scores example_result,
       kept_indices = [0, 1, 2, 3, 4, 5], compression_ratio = 3 / 2 \<rparr>"

text \<open>The same text with \<open>min_tokens = 2\<close> and \<open>hard_threshold = 0.9\<close>.\<close>

definition example_result_hard :: CompressionResult where
  "example_result_hard =
     \<lparr> original_text = ''The cat sat down'', compressed_text = ''down'',
       original_tokens = 4, compressed_tokens = 1,
       token_scores = token_scores example_result,
       kept_indices = [4], compression_ratio = 1 / 4 \<rparr>"

text \<open>The text \<open>a b c d\<close> with \<open>min_tokens = 4\<close> and the override \<open>1.0\<close>.\<close>

definition example_result_abcd :: CompressionResult where
  "example_result_abcd =
     \<lparr> original_text = ''a b c d'', compressed_text = ''[CLS] a b c d [SEP]'',
       original_tokens = 4, compressed_tokens = 6,
       token_scores =
         [0, 30000000000000000 / 30000001750000021, 15000000000000000 / 30000001750000021,
          7500000000000000 / 30000001750000021, 3000000000000000 / 30000001750000021, 0],
       kept_indices = [0, 1, 2, 3, 4, 5], compression_ratio = 3 / 2 \<rparr>"

text \<open>The empty text.\<close>

definition example_result_empty :: CompressionResult where
  "example_result_empty =
     \<lparr> original_text = [], compressed_text = ''[CLS] [SEP]'',
       original_tokens = 0, compressed_tokens = 2, token_scores = [1, 1],
       kept_indices = [0, 1], compression_ratio = 1 \<rparr>"

section \<open>The selection as the specification words it\<close>

text \<open>
  For comparison with the code, the selection rule with \<open>n\<close> the number of content tokens,
  that is, of tokens that are not structural (their id is not a special id), and
  \<open>k = max(min_tokens, floor(n * target_ratio))\<close>: every token if \<open>k \<ge> n\<close>, otherwise the
  tokens whose score is at least the \<open>k\<close>-th largest score floored at the hard threshold.
\<close>

definition content_count :: "nat list \<Rightarrow> nat list \<Rightarrow> nat" where
  "content_count special_ids token_ids = length (filter (\<lambda>t. t \<notin> set special_ids) token_ids)"

definition claimed_selection :: "CompressorConfig \<Rightarrow> real \<Rightarrow> nat list \<Rightarrow> nat list \<Rightarrow> real list \<Rightarrow>
    nat list" where
  "claimed_selection cfg target special_ids token_ids scores =
     (let n = content_count special_ids token_ids;
          k = max (min_tokens cfg) \<lfloor>real n * target\<rfloor>
      in if int n \<le> k then [0..<length scores]
         else filter (\<lambda>i. max (sorted_desc scores ! nat (k - 1)) (hard_threshold cfg) \<le> scores ! i)
                [0..<length scores])"

section \<open>Properties of the compressor\<close>

subsection \<open>Evaluation of the examples\<close>

lemmas eval_defs =
  compress_def score_tokens_def example_env_def example_tokenizer_def default_config_def
  split_words_def normalize_def fuse_def query_given_def np_add_def np_scale_def
  apply_position_bias_def penalty_def effective_target_def keep_count_def py_int_def
  find_threshold_def select_indices_def enumerate_eq_zip clean_up_def strip_def is_space_def
  ratio_of_def to_lower_def is_alnum_def sorted_desc_def np_index_def

lemma example_run:
  "compress example_env (default_config\<lparr>min_tokens := 1\<rparr>) ''The cat sat down'' None None =
     Inr example_result"
  by (simp add: eval_defs example_result_def)

subsection \<open>Selection and gathering\<close>

lemma select_indices_eq:
  "select_indices scores t = filter (\<lambda>i. scores ! i \<ge> t) [0..<length scores]"
proof (induction scores rule: rev_induct)
  case Nil
  then show ?case by (simp add: select_indices_def)
next
  case (snoc x xs)
  have "filter (\<lambda>i. t \<le> (xs @ [x]) ! i) [0..<length xs] = filter (\<lambda>i. t \<le> xs ! i) [0..<length xs]"
    by (rule filter_cong) (auto simp: nth_append)
  with snoc show ?case
    by (simp add: select_indices_def enumerate_append_eq)
qed

lemma select_indices_sorted: "sorted_wrt (<) (select_indices scores t)"
  unfolding select_indices_eq by (rule sorted_wrt_filter) (rule sorted_wrt_upt)

lemma gather_Inr:
  "gather tokens ixs = Inr r \<Longrightarrow> r = map ((!) tokens) ixs \<and> (\<forall>i \<in> set ixs. i < length tokens)"
  by (induction ixs arbitrary: r) (auto split: if_splits sum.splits)

lemma gather_total:
  "(\<forall>i \<in> set ixs. i < length tokens) \<Longrightarrow> gather tokens ixs = Inr (map ((!) tokens) ixs)"
  by (induction ixs) auto

lemma map_nth_filter_upt_nths:
  "n \<le> length xs \<Longrightarrow> map ((!) xs) (filter P [0..<n]) = nths (take n xs) {i. P i}"
proof (induction n)
  case 0
  then show ?case by simp
next
  case (Suc n)
  then show ?case
    by (simp add: take_Suc_conv_app_nth nths_append nths_singleton)
qed

lemma sorted_bounded_filter_upt:
  assumes "sorted_wrt (<) ixs" "\<forall>i \<in> set ixs. i < n"
  shows "ixs = filter (\<lambda>i. i \<in> set ixs) [0..<n]"
proof -
  have s1: "sorted ixs" "distinct ixs" using assms(1)
    by (auto simp: strict_sorted_iff)
  have "sorted (filter (\<lambda>i. i \<in> set ixs) [0..<n])" "distinct (filter (\<lambda>i. i \<in> set ixs) [0..<n])"
    by (auto intro: sorted_wrt_filter)
  moreover have "set (filter (\<lambda>i. i \<in> set ixs) [0..<n]) = set ixs" using assms(2) by auto
  ultimately show ?thesis using s1
    by (metis sorted_distinct_set_unique)
qed

lemma subseq_map_nth:
  assumes "sorted_wrt (<) ixs" "\<forall>i \<in> set ixs. i < length xs"
  shows "subseq (map ((!) xs) ixs) xs"
proof -
  have "ixs = filter (\<lambda>i. i \<in> set ixs) [0..<length xs]"
    using assms by (rule sorted_bounded_filter_upt)
  then have "map ((!) xs) ixs = nths xs {i. i \<in> set ixs}"
    using map_nth_filter_upt_nths[of "length xs" xs "\<lambda>i. i \<in> set ixs"] by simp
  then show ?thesis by (auto simp: subseq_conv_nths)
qed

lemma score_tokens_tokens:
  "score_tokens env cfg text query = Inr (scores, tokens, token_ids) \<Longrightarrow>
     tokens = map fst (tokenizer env text (chunk_size cfg)) \<and>
     token_ids = map snd (tokenizer env text (chunk_size cfg))"
  by (auto simp: score_tokens_def Let_def split: sum.splits)

text \<open>What a successful call of \<open>compress\<close> has computed.\<close>

lemma compress_Inr:
  assumes "compress env cfg text query override = Inr r"
  obtains scores tokens token_ids threshold where
    "score_tokens env cfg text query = Inr (scores, tokens, token_ids)"
    "find_threshold cfg scores (keep_count env cfg (effective_target cfg override) (length tokens))
       (length tokens) = Inr threshold"
    "gather tokens (select_indices scores threshold) =
       Inr (map ((!) tokens) (select_indices scores threshold))"
    "r = \<lparr> original_text = text,
           compressed_text = clean_up (convert_tokens_to_string env
              (map ((!) tokens) (select_indices scores threshold))),
           original_tokens = count_tokens env text,
           compressed_tokens = count_tokens env (clean_up (convert_tokens_to_string env
              (map ((!) tokens) (select_indices scores threshold)))),
           token_scores = scores, kept_indices = select_indices scores threshold,
           compression_ratio = ratio_of (count_tokens env (clean_up (convert_tokens_to_string env
              (map ((!) tokens) (select_indices scores threshold))))) (count_tokens env text) \<rparr>"
proof -
  from assms obtain scores tokens token_ids where
    st: "score_tokens env cfg text query = Inr (scores, tokens, token_ids)"
    by (auto simp: compress_def split: sum.splits)
  from assms st obtain threshold where
    th: "find_threshold cfg scores (keep_count env cfg (effective_target cfg override) (length tokens))
       (length tokens) = Inr threshold"
    by (auto simp: compress_def Let_def split: sum.splits)
  from assms st th obtain kt where
    g: "gather tokens (select_indices scores threshold) = Inr kt"
    by (auto simp: compress_def Let_def split: sum.splits)
  then have kt: "kt = map ((!) tokens) (select_indices scores threshold)"
    using gather_Inr by blast
  from assms st th g have "r = \<lparr> original_text = text,
           compressed_text = clean_up (convert_tokens_to_string env kt),
           original_tokens = count_tokens env text,
           compressed_tokens = count_tokens env (clean_up (convert_tokens_to_string env kt)),
           token_scores = scores, kept_indices = select_indices scores threshold,
           compression_ratio = ratio_of (count_tokens env (clean_up (convert_tokens_to_string env kt)))
             (count_tokens env text) \<rparr>"
    by (simp add: compress_def Let_def)
  with st th g kt show ?thesis using that by blast
qed

lemma compress_each_cong:
  assumes "\<And>t. compress env cfg t query override = compress env' cfg' t query' override'"
  shows "compress_each env cfg query override cs st = compress_each env' cfg' query' override' cs st"
proof (induction cs arbitrary: st)
  case Nil
  then show ?case by simp
next
  case (Cons c cs)
  obtain a b d where st: "st = (a, b, d)" by (cases st)
  show ?case unfolding st
    by (simp add: assms Cons split: sum.splits)
qed

subsection \<open>Order of the kept indices\<close>

text \<open>
  Claim C2. Whenever \<open>compress\<close> returns, its \<open>kept_indices\<close> are strictly increasing
  indices into the token list, so the kept tokens are a subsequence of the tokens, in
  their original order, and the compressed text is built from exactly that subsequence.
\<close>

theorem kept_indices_strictly_increasing:
  assumes "compress env cfg text query override = Inr r"
  shows "sorted_wrt (<) (kept_indices r) \<and>
         (let tokens = map fst (tokenizer env text (chunk_size cfg)) in
            (\<forall>i \<in> set (kept_indices r). i < length tokens) \<and>
            subseq (map ((!) tokens) (kept_indices r)) tokens \<and>
            compressed_text r =
              clean_up (convert_tokens_to_string env (map ((!) tokens) (kept_indices r))))"
proof -
  from assms obtain scores tokens token_ids threshold where
    st: "score_tokens env cfg text query = Inr (scores, tokens, token_ids)" and
    g: "gather tokens (select_indices scores threshold) =
          Inr (map ((!) tokens) (select_indices scores threshold))" and
    r: "kept_indices r = select_indices scores threshold"
       "compressed_text r = clean_up (convert_tokens_to_string env
              (map ((!) tokens) (select_indices scores threshold)))"
    by (rule compress_Inr) simp
  have tk: "tokens = map fst (tokenizer env text (chunk_size cfg))"
    using st score_tokens_tokens by blast
  have s: "sorted_wrt (<) (kept_indices r)" by (simp add: r select_indices_sorted)
  have b: "\<forall>i \<in> set (kept_indices r). i < length tokens"
    using gather_Inr[OF g] r by simp
  have "subseq (map ((!) tokens) (kept_indices r)) tokens"
    using s b by (rule subseq_map_nth)
  with s b r tk show ?thesis by (simp add: Let_def)
qed

theorem kept_indices_strictly_increasing_witness:
  "compress example_env (default_config\<lparr>min_tokens := 1\<rparr>) ''The cat sat down'' None None =
     Inr example_result \<and>
   kept_indices example_result = [1, 4] \<and>
   sorted_wrt (<) (kept_indices example_result) \<and>
   subseq (map ((!) [''[CLS]'', ''the'', ''cat'', ''sat'', ''down'', ''[SEP]'']) (kept_indices example_result))
     [''[CLS]'', ''the'', ''cat'', ''sat'', ''down'', ''[SEP]'']"
proof -
  have t: "map fst (tokenizer example_env ''The cat sat down''
             (chunk_size (default_config\<lparr>min_tokens := 1\<rparr>))) =
           [''[CLS]'', ''the'', ''cat'', ''sat'', ''down'', ''[SEP]'']"
    by (simp add: eval_defs)
  have k: "kept_indices example_result = [1, 4]" by (simp add: example_result_def)
  show ?thesis
    using kept_indices_strictly_increasing[OF example_run] example_run k
    unfolding Let_def t by blast
qed

subsection \<open>The target-ratio override\<close>


subsection \<open>Normalization and position bias\<close>

lemma fold_max_Max: "fold max xs (x::real) = Max (set (x # xs))"
  by (rule Max.set_eq_fold[symmetric])

lemma fold_min_Min: "fold min xs (x::real) = Min (set (x # xs))"
  by (rule Min.set_eq_fold[symmetric])

lemma np_max_nonempty:
  assumes "x \<noteq> []"
  shows "np_max x = Inr (Max (set x))"
proof (cases x)
  case Nil
  with assms show ?thesis by simp
next
  case (Cons a l)
  have "np_max (a # l) = Inr (Max (set (a # l)))"
    by (simp only: np_max.simps fold_max_Max)
  then show ?thesis using Cons by simp
qed

lemma np_min_nonempty:
  assumes "x \<noteq> []"
  shows "np_min x = Inr (Min (set x))"
proof (cases x)
  case Nil
  with assms show ?thesis by simp
next
  case (Cons a l)
  have "np_min (a # l) = Inr (Min (set (a # l)))"
    by (simp only: np_min.simps fold_min_Min)
  then show ?thesis using Cons by simp
qed

lemma normalize_nonempty:
  "x \<noteq> [] \<Longrightarrow> normalize x =
     (if Max (set x) = Min (set x) then Inr (replicate (length x) 1)
      else Inr (map (\<lambda>v. (v - Min (set x)) / (Max (set x) - Min (set x) + 1 / 10 ^ 8)) x))"
  by (simp add: normalize_def np_max_nonempty np_min_nonempty)

lemma normalize_empty: "normalize [] = Inl ValueError"
  by (simp add: normalize_def)

lemma normalize_Inr_nonempty: "normalize x = Inr y \<Longrightarrow> x \<noteq> []"
  by (auto simp: normalize_empty)

lemma normalize_length: "normalize x = Inr y \<Longrightarrow> length y = length x"
  by (cases "x = []") (auto simp: normalize_empty normalize_nonempty split: if_splits)

lemma normalize_range:
  assumes "normalize x = Inr y" "v \<in> set y"
  shows "0 \<le> v \<and> v \<le> 1"
proof -
  have ne: "x \<noteq> []" using assms(1) by (rule normalize_Inr_nonempty)
  show ?thesis
  proof (cases "Max (set x) = Min (set x)")
    case True
    with assms ne show ?thesis by (auto simp: normalize_nonempty)
  next
    case False
    with assms ne obtain u where u: "u \<in> set x"
      "v = (u - Min (set x)) / (Max (set x) - Min (set x) + 1 / 10 ^ 8)"
      by (auto simp: normalize_nonempty)
    have lo: "Min (set x) \<le> u" and hi: "u \<le> Max (set x)" using u(1) by auto
    have d: "0 < Max (set x) - Min (set x) + 1 / 10 ^ 8" using lo hi by simp
    have "u - Min (set x) \<le> Max (set x) - Min (set x) + 1 / 10 ^ 8" using hi by simp
    then have "v \<le> 1" unfolding u(2) using d by (simp add: divide_le_eq_1)
    moreover have "0 \<le> v" unfolding u(2) using lo d by simp
    ultimately show ?thesis by simp
  qed
qed

lemma normalize_constant:
  assumes "x \<noteq> []" "\<forall>v \<in> set x. v = c"
  shows "normalize x = Inr (replicate (length x) 1)"
proof -
  have "set x = {c}" using assms by (cases x) auto
  then show ?thesis using assms(1) by (simp add: normalize_nonempty)
qed

lemma py_int_tenth: "py_int (real n * 0.1) = int (n div 10)"
proof -
  have "real n * 0.1 = real n / real 10" by simp
  then have "\<lfloor>real n * 0.1\<rfloor> = int (n div 10)"
    by (simp only: floor_divide_of_nat_eq)
  then show ?thesis by (simp add: py_int_def)
qed

lemma py_int_nine_tenths: "py_int (real n * 0.9) = int (9 * n div 10)"
proof -
  have "real n * 0.9 = real (9 * n) / real 10" by simp
  then have "\<lfloor>real n * 0.9\<rfloor> = int (9 * n div 10)"
    by (simp only: floor_divide_of_nat_eq)
  then show ?thesis by (simp add: py_int_def)
qed

lemma position_weights_eq:
  "position_weights cfg n =
     slice_assign_suffix (9 * n div 10) (position_boost_end cfg)
       (slice_assign_prefix (n div 10) (position_boost_start cfg) (replicate n 1))"
  unfolding position_weights_def Let_def py_int_tenth py_int_nine_tenths by simp

lemma slice_assign_prefix_length: "length (slice_assign_prefix k v ws) = length ws"
  by (simp add: slice_assign_prefix_def)

lemma slice_assign_suffix_length: "length (slice_assign_suffix k v ws) = length ws"
  by (simp add: slice_assign_suffix_def)

lemma slice_assign_prefix_nth:
  "i < length ws \<Longrightarrow> slice_assign_prefix k v ws ! i = (if i < k then v else ws ! i)"
  by (simp add: slice_assign_prefix_def nth_append min_def)

lemma slice_assign_suffix_nth:
  assumes "i < length ws"
  shows "slice_assign_suffix k v ws ! i = (if k \<le> i then v else ws ! i)"
proof (cases "k \<le> i")
  case True
  with assms have "i - k < length ws - k" by simp
  with True assms show ?thesis
    by (simp add: slice_assign_suffix_def nth_append min_def)
next
  case False
  with assms show ?thesis
    by (simp add: slice_assign_suffix_def nth_append min_def)
qed

lemma position_weights_length: "length (position_weights cfg n) = n"
  by (simp add: position_weights_eq slice_assign_prefix_length slice_assign_suffix_length)

lemma position_weights_nth:
  assumes "i < n"
  shows "position_weights cfg n ! i =
     (if 9 * n div 10 \<le> i then position_boost_end cfg
      else if i < n div 10 then position_boost_start cfg else 1)"
  using assms
  by (simp add: position_weights_eq slice_assign_prefix_length slice_assign_suffix_nth
      slice_assign_prefix_nth)

lemma regions_disjoint: "n div 10 \<le> 9 * n div (10::nat)"
  by (simp add: div_le_mono)

text \<open>
  Claim C6. On an array of fewer than 10 scores the position-bias corrector returns the
  array unchanged. On a longer array of length \<open>n\<close> the result has the same length; the
  positions below \<open>n div 10\<close> (the first tenth, rounded down) are multiplied by the start
  boost, the positions from \<open>9 * n div 10\<close> on (the last tenth) by the end boost, and every
  other position keeps its score.
\<close>

theorem position_bias_frame:
  "(length scores < 10 \<longrightarrow> apply_position_bias cfg scores = scores) \<and>
   (10 \<le> length scores \<longrightarrow>
      length (apply_position_bias cfg scores) = length scores \<and>
      (\<forall>i < length scores.
         apply_position_bias cfg scores ! i =
           (if i < length scores div 10 then scores ! i * position_boost_start cfg
            else if 9 * length scores div 10 \<le> i then scores ! i * position_boost_end cfg
            else scores ! i)))"
proof (intro conjI impI allI)
  assume "length scores < 10"
  then show "apply_position_bias cfg scores = scores" by (simp add: apply_position_bias_def)
next
  assume "10 \<le> length scores"
  then show "length (apply_position_bias cfg scores) = length scores"
    by (simp add: apply_position_bias_def position_weights_length)
next
  fix i assume n: "10 \<le> length scores" and i: "i < length scores"
  have d: "length scores div 10 \<le> 9 * length scores div 10" by (rule regions_disjoint)
  from n i show "apply_position_bias cfg scores ! i =
           (if i < length scores div 10 then scores ! i * position_boost_start cfg
            else if 9 * length scores div 10 \<le> i then scores ! i * position_boost_end cfg
            else scores ! i)"
    using d by (auto simp: apply_position_bias_def position_weights_length position_weights_nth)
qed

theorem position_bias_frame_witness:
  "apply_position_bias default_config [3, 1, 2] = [3, 1, 2] \<and>
   length (apply_position_bias default_config (map real [0..<20])) = 20 \<and>
   apply_position_bias default_config (map real [0..<20]) ! 1 = 1 * (6 / 5) \<and>
   apply_position_bias default_config (map real [0..<20]) ! 2 = 2 \<and>
   apply_position_bias default_config (map real [0..<20]) ! 17 = 17 \<and>
   apply_position_bias default_config (map real [0..<20]) ! 18 = 18 * (11 / 10)"
proof -
  let ?xs = "map real [0..<20]"
  have a: "apply_position_bias default_config [3, 1, 2] = [3, 1, 2]"
    using position_bias_frame[of "[3, 1, 2]" default_config] by simp
  have n: "length ?xs = 20" by simp
  have ge: "10 \<le> length ?xs" by simp
  have f: "length (apply_position_bias default_config ?xs) = length ?xs \<and>
      (\<forall>i < length ?xs.
         apply_position_bias default_config ?xs ! i =
           (if i < length ?xs div 10 then ?xs ! i * position_boost_start default_config
            else if 9 * length ?xs div 10 \<le> i then ?xs ! i * position_boost_end default_config
            else ?xs ! i))"
    using position_bias_frame[of ?xs default_config] ge by blast
  have b: "position_boost_start default_config = 6 / 5" "position_boost_end default_config = 11 / 10"
    by (simp_all add: default_config_def)
  have i1: "apply_position_bias default_config ?xs ! 1 = 1 * (6 / 5)"
    using f[THEN conjunct2, rule_format, of 1] unfolding n b by simp
  have i2: "apply_position_bias default_config ?xs ! 2 = 2"
    using f[THEN conjunct2, rule_format, of 2] unfolding n b by simp
  have i17: "apply_position_bias default_config ?xs ! 17 = 17"
    using f[THEN conjunct2, rule_format, of 17] unfolding n b by simp
  have i18: "apply_position_bias default_config ?xs ! 18 = 18 * (11 / 10)"
    using f[THEN conjunct2, rule_format, of 18] unfolding n b by simp
  from a f n i1 i2 i17 i18 show ?thesis by simp
qed

subsection \<open>Range of the fused scores\<close>

lemma normalize_total:
  "0 < length x \<Longrightarrow> \<exists>y. normalize x = Inr y \<and> length y = length x"
  by (simp add: normalize_nonempty)

lemma apply_position_bias_length: "length (apply_position_bias cfg scores) = length scores"
  by (simp add: apply_position_bias_def position_weights_length Let_def)

lemma penalize_Inr:
  "penalize sp toks scores = Inr r \<Longrightarrow> length r = length scores \<and> length toks \<le> length scores"
  by (induction sp toks scores arbitrary: r rule: penalize.induct) (auto split: sum.splits)

lemma penalize_total:
  "length toks \<le> length scores \<Longrightarrow> \<exists>r. penalize sp toks scores = Inr r \<and> length r = length scores"
  by (induction sp toks scores rule: penalize.induct) (auto split: sum.splits)

lemma np_add_Inr: "np_add xs ys = Inr zs \<Longrightarrow> length zs = length xs \<and> length ys = length xs"
  by (auto simp: np_add_def split: if_splits)

lemma fuse_Inr:
  "fuse env cfg text query tokens attn sem = Inr fused \<Longrightarrow>
     length fused = length attn \<and> length sem = length attn"
  by (auto simp: fuse_def Let_def np_scale_def dest!: np_add_Inr split: if_splits sum.splits)

lemma fuse_total_no_query:
  assumes "\<not> (query_given query \<and> use_query_aware cfg)"
    "attention_weight cfg + semantic_weight cfg \<noteq> 0" "length sem = length attn"
  shows "\<exists>fused. fuse env cfg text query tokens attn sem = Inr fused \<and> length fused = length attn"
  using assms by (auto simp: fuse_def Let_def np_add_def np_scale_def)

lemma fuse_total_query:
  assumes "query_given query \<and> use_query_aware cfg"
    "length (query_scores env text (the query) tokens) = length attn"
    "length sem = length attn" "attn \<noteq> []"
  shows "\<exists>fused. fuse env cfg text query tokens attn sem = Inr fused \<and> length fused = length attn"
proof -
  have "0 < length (query_scores env text (the query) tokens)" using assms(2,4) by auto
  then obtain qs where "normalize (query_scores env text (the query) tokens) = Inr qs"
    "length qs = length (query_scores env text (the query) tokens)"
    using normalize_total by blast
  then show ?thesis using assms
    by (simp add: fuse_def np_add_def np_scale_def)
qed

lemma score_tokens_final:
  assumes "score_tokens env cfg text query = Inr (scores, tokens, token_ids)"
  shows "\<exists>pre. normalize pre = Inr scores \<and> length tokens \<le> length pre"
  using assms
  by (auto simp: score_tokens_def Let_def split: sum.splits dest!: penalize_Inr)

lemma score_tokens_range:
  assumes "score_tokens env cfg text query = Inr (scores, tokens, token_ids)" "s \<in> set scores"
  shows "0 \<le> s \<and> s \<le> 1"
  using score_tokens_final[OF assms(1)] assms(2) normalize_range by blast

lemma score_tokens_length:
  assumes "score_tokens env cfg text query = Inr (scores, tokens, token_ids)"
  shows "length tokens \<le> length scores \<and> scores \<noteq> []"
  using score_tokens_final[OF assms] normalize_length normalize_Inr_nonempty
  by (metis length_0_conv)

lemma score_tokens_total:
  assumes "well_shaped env cfg text query"
  shows "\<exists>scores. score_tokens env cfg text query =
           Inr (scores, map fst (tokenizer env text (chunk_size cfg)),
                map snd (tokenizer env text (chunk_size cfg))) \<and>
         length scores = length (tokenizer env text (chunk_size cfg))"
proof -
  let ?toks = "tokenizer env text (chunk_size cfg)"
  let ?n = "length ?toks"
  let ?a = "attention_scores env text (chunk_size cfg) (layer_weighting cfg)"
  let ?s = "semantic_scores env text (chunk_size cfg)"
  from assms have n: "0 < ?n" and la: "length ?a = ?n" and ls: "length ?s = ?n"
    by (auto simp: well_shaped_def Let_def)
  from n la obtain attn where attn: "normalize ?a = Inr attn" "length attn = ?n"
    using normalize_total[of ?a] by auto
  from n ls obtain sem where sem: "normalize ?s = Inr sem" "length sem = ?n"
    using normalize_total[of ?s] by auto
  have "\<exists>fused. fuse env cfg text query (map fst ?toks) attn sem = Inr fused \<and>
          length fused = length attn"
  proof (cases "query_given query \<and> use_query_aware cfg")
    case True
    with assms have "length (query_scores env text (the query) (map fst ?toks)) = length attn"
      by (simp add: well_shaped_def Let_def attn)
    moreover have "attn \<noteq> []" using attn n by auto
    ultimately show ?thesis using True sem attn by (intro fuse_total_query) auto
  next
    case False
    with assms have "attention_weight cfg + semantic_weight cfg \<noteq> 0"
      by (auto simp: well_shaped_def Let_def)
    with False show ?thesis using sem attn by (intro fuse_total_no_query) auto
  qed
  then obtain fused where fused: "fuse env cfg text query (map fst ?toks) attn sem = Inr fused"
    "length fused = ?n" using attn by auto
  let ?b = "if use_position_bias cfg then apply_position_bias cfg fused else fused"
  have lb: "length ?b = ?n" using fused by (simp add: apply_position_bias_length)
  then obtain pen where pen: "penalize (all_special_ids env) ?toks ?b = Inr pen" "length pen = ?n"
    using penalize_total[of ?toks ?b "all_special_ids env"] by auto
  then obtain final where final: "normalize pen = Inr final" "length final = ?n"
    using normalize_total[of pen] n by auto
  show ?thesis
    using attn sem fused pen final by (simp add: score_tokens_def Let_def)
qed

text \<open>
  Claim C5. Every score that \<open>score_tokens\<close> returns, and so every entry of
  \<open>token_scores\<close> of a result of \<open>compress\<close>, lies in the closed interval from 0 to 1,
  whatever the boosts and penalties did before the final normalization; on well-shaped
  signals \<open>score_tokens\<close> does return. Normalization keeps the length, maps into that
  interval, and maps a constant non-empty array to all ones.
\<close>

theorem fused_scores_in_unit_interval:
  "(score_tokens env cfg text query = Inr (scores, tokens, token_ids) \<longrightarrow>
      (\<forall>s \<in> set scores. 0 \<le> s \<and> s \<le> 1)) \<and>
   (compress env cfg text query override = Inr r \<longrightarrow>
      (\<forall>s \<in> set (token_scores r). 0 \<le> s \<and> s \<le> 1)) \<and>
   (well_shaped env cfg text query \<longrightarrow>
      (\<exists>res. score_tokens env cfg text query = Inr res)) \<and>
   (normalize x = Inr y \<longrightarrow> length y = length x \<and> (\<forall>v \<in> set y. 0 \<le> v \<and> v \<le> 1)) \<and>
   (x \<noteq> [] \<and> (\<forall>v \<in> set x. v = c) \<longrightarrow> normalize x = Inr (replicate (length x) 1))"
proof (intro conjI impI)
  assume "score_tokens env cfg text query = Inr (scores, tokens, token_ids)"
  then show "\<forall>s \<in> set scores. 0 \<le> s \<and> s \<le> 1" using score_tokens_range by blast
next
  assume a: "compress env cfg text query override = Inr r"
  then obtain sc tk ti where st: "score_tokens env cfg text query = Inr (sc, tk, ti)"
    and "token_scores r = sc"
    by (rule compress_Inr) simp
  then show "\<forall>s \<in> set (token_scores r). 0 \<le> s \<and> s \<le> 1" using score_tokens_range by blast
next
  assume "well_shaped env cfg text query"
  then show "\<exists>res. score_tokens env cfg text query = Inr res"
    using score_tokens_total by blast
next
  assume "normalize x = Inr y"
  then show "length y = length x" by (rule normalize_length)
next
  assume "normalize x = Inr y"
  then show "\<forall>v \<in> set y. 0 \<le> v \<and> v \<le> 1" using normalize_range by blast
next
  assume "x \<noteq> [] \<and> (\<forall>v \<in> set x. v = c)"
  then show "normalize x = Inr (replicate (length x) 1)" using normalize_constant by blast
qed

lemma example_scores:
  "score_tokens example_env (default_config\<lparr>min_tokens := 1\<rparr>) ''The cat sat down'' None =
     Inr (token_scores example_result, [''[CLS]'', ''the'', ''cat'', ''sat'', ''down'', ''[SEP]''],
          [101, 1003, 1003, 1003, 1004, 102])"
  by (simp add: eval_defs example_result_def)

lemma example_well_shaped:
  "well_shaped example_env (default_config\<lparr>min_tokens := 1\<rparr>) ''The cat sat down'' None"
  by (simp add: well_shaped_def eval_defs)

theorem fused_scores_in_unit_interval_witness:
  "list_all (\<lambda>s. 0 \<le> s \<and> s \<le> 1) (token_scores example_result) \<and>
   length (token_scores example_result) = 6 \<and>
   normalize [2, 4, 3] = Inr [0, 200000000 / 200000001, 100000000 / 200000001] \<and>
   list_all (\<lambda>s. 0 \<le> s \<and> s \<le> 1) [0, 200000000 / 200000001, 100000000 / 200000001 :: real] \<and>
   normalize [7, 7, 7] = Inr [1, 1, 1]"
proof -
  have n: "normalize [2, 4, 3] = Inr [0, 200000000 / 200000001, 100000000 / 200000001]"
    by (simp add: normalize_def)
  have c: "[7, 7, 7] \<noteq> [] \<and> (\<forall>v \<in> set [7, 7, 7 :: real]. v = 7)" by simp
  have "list_all (\<lambda>s. 0 \<le> s \<and> s \<le> 1) (token_scores example_result)"
    using fused_scores_in_unit_interval[of example_env "default_config\<lparr>min_tokens := 1\<rparr>"
        "''The cat sat down''" None "token_scores example_result" _ _ None example_result]
      example_scores example_run example_well_shaped
    by (simp add: list_all_iff)
  moreover have "list_all (\<lambda>s. 0 \<le> s \<and> s \<le> 1) [0, 200000000 / 200000001, 100000000 / 200000001 :: real]"
    using fused_scores_in_unit_interval[of _ _ _ _ _ _ _ _ _ "[2, 4, 3]"
        "[0, 200000000 / 200000001, 100000000 / 200000001]"] n
    by (simp add: list_all_iff)
  moreover have "normalize [7, 7, 7] = Inr [1, 1, 1]"
    using fused_scores_in_unit_interval[of _ _ _ _ _ _ _ _ _ "[7, 7, 7]" _ 7] c
    by (simp add: numeral_eq_Suc)
  ultimately show ?thesis using n by (simp add: example_result_def)
qed

subsection \<open>Independence of the query weight\<close>

lemma position_weights_cong:
  "position_weights (cfg\<lparr>query_weight := w\<rparr>) n = position_weights cfg n"
  by (simp add: position_weights_def)

lemma apply_position_bias_cong:
  "apply_position_bias (cfg\<lparr>query_weight := w\<rparr>) scores = apply_position_bias cfg scores"
  by (simp add: apply_position_bias_def position_weights_cong Let_def)

lemma fuse_no_query:
  "\<not> (query_given query \<and> use_query_aware cfg) \<Longrightarrow>
   fuse env cfg text query tokens attn sem =
     (if attention_weight cfg + semantic_weight cfg = 0 then Inl ZeroDivisionError
      else np_add
        (np_scale (attention_weight cfg / (attention_weight cfg + semantic_weight cfg)) attn)
        (np_scale (semantic_weight cfg / (attention_weight cfg + semantic_weight cfg)) sem))"
  by (auto simp: fuse_def Let_def)

lemma score_tokens_query_weight:
  assumes "\<not> (query_given query \<and> use_query_aware cfg)"
  shows "score_tokens env (cfg\<lparr>query_weight := w\<rparr>) text query = score_tokens env cfg text query"
proof -
  have "\<And>tokens attn sem. fuse env (cfg\<lparr>query_weight := w\<rparr>) text query tokens attn sem =
      fuse env cfg text query tokens attn sem"
    using assms by (simp add: fuse_no_query)
  then show ?thesis
    by (simp add: score_tokens_def apply_position_bias_cong Let_def cong: sum.case_cong if_cong option.case_cong)
qed

text \<open>
  Claim C4. When no query is used (none is supplied, it is empty, or query-awareness is
  off), \<open>compress\<close> and \<open>compress_chunks\<close> return the same for every value of the
  \<open>query_weight\<close> field: the fusion is the sum of the attention and semantic signals with
  the weights divided by their total, which sum to 1, and has no query term.
\<close>

theorem no_query_ignores_query_weight:
  assumes "\<not> (query_given query \<and> use_query_aware cfg)"
  shows "compress env (cfg\<lparr>query_weight := w\<rparr>) text query override =
           compress env cfg text query override \<and>
         compress_chunks env (cfg\<lparr>query_weight := w\<rparr>) text query override =
           compress_chunks env cfg text query override \<and>
         fuse env cfg text query tokens attn sem =
           (if attention_weight cfg + semantic_weight cfg = 0 then Inl ZeroDivisionError
            else np_add
              (np_scale (attention_weight cfg / (attention_weight cfg + semantic_weight cfg)) attn)
              (np_scale (semantic_weight cfg / (attention_weight cfg + semantic_weight cfg)) sem)) \<and>
         (attention_weight cfg + semantic_weight cfg \<noteq> 0 \<longrightarrow>
            attention_weight cfg / (attention_weight cfg + semantic_weight cfg) +
            semantic_weight cfg / (attention_weight cfg + semantic_weight cfg) = 1)"
proof -
  have c: "\<And>t. compress env (cfg\<lparr>query_weight := w\<rparr>) t query override =
             compress env cfg t query override"
    using assms
    by (simp add: compress_def score_tokens_query_weight effective_target_def keep_count_def
        find_threshold_def Let_def cong: sum.case_cong if_cong option.case_cong)
  have "\<And>cs st. compress_each env (cfg\<lparr>query_weight := w\<rparr>) query override cs st =
      compress_each env cfg query override cs st"
    by (rule compress_each_cong) (rule c)
  then have k: "compress_chunks env (cfg\<lparr>query_weight := w\<rparr>) text query override =
           compress_chunks env cfg text query override"
    by (simp add: compress_chunks_def make_chunks_def chunk_limit_def)
  have "attention_weight cfg + semantic_weight cfg \<noteq> 0 \<longrightarrow>
            attention_weight cfg / (attention_weight cfg + semantic_weight cfg) +
            semantic_weight cfg / (attention_weight cfg + semantic_weight cfg) = 1"
    by (simp add: add_divide_distrib[symmetric])
  with c k fuse_no_query[OF assms] show ?thesis by blast
qed

theorem no_query_ignores_query_weight_witness:
  "compress example_env (default_config\<lparr>min_tokens := 1, query_weight := 9 / 10\<rparr>)
     ''The cat sat down'' None None = Inr example_result \<and>
   compress example_env (default_config\<lparr>min_tokens := 1, query_weight := 0\<rparr>)
     ''The cat sat down'' None None = Inr example_result \<and>
   attention_weight default_config / (attention_weight default_config + semantic_weight default_config) +
     semantic_weight default_config / (attention_weight default_config + semantic_weight default_config) = 1"
proof -
  have q: "\<not> (query_given None \<and> use_query_aware (default_config\<lparr>min_tokens := 1\<rparr>))"
    by (simp add: query_given_def)
  have n: "attention_weight (default_config\<lparr>min_tokens := 1\<rparr>) +
           semantic_weight (default_config\<lparr>min_tokens := 1\<rparr>) \<noteq> 0"
    by (simp add: default_config_def)
  show ?thesis
    using no_query_ignores_query_weight[OF q, of example_env "9 / 10" "''The cat sat down''" None]
      no_query_ignores_query_weight[OF q, of example_env 0 "''The cat sat down''" None]
      example_run n
    by (simp add: default_config_def)
qed

subsection \<open>The keep threshold as an order statistic\<close>

lemma sorted_desc_mset: "mset (sorted_desc xs) = mset xs"
  by (simp add: sorted_desc_def)

lemma sorted_desc_length: "length (sorted_desc xs) = length xs"
  by (simp add: sorted_desc_def)

lemma sorted_desc_sorted: "sorted_wrt (\<ge>) (sorted_desc xs)"
  by (simp add: sorted_desc_def sorted_wrt_rev)

lemma length_filter_mset_eq:
  "mset xs = mset ys \<Longrightarrow> length (filter P xs) = length (filter P ys)"
  by (metis mset_filter size_mset)

lemma desc_count_ge:
  assumes "sorted_wrt (\<ge>) (ys :: real list)" "j < length ys"
  shows "Suc j \<le> length (filter (\<lambda>x. ys ! j \<le> x) ys)"
proof -
  have "\<forall>x \<in> set (take (Suc j) ys). ys ! j \<le> x"
  proof
    fix x assume "x \<in> set (take (Suc j) ys)"
    then obtain i where i: "i < Suc j" "i < length ys" "x = ys ! i"
      by (auto simp: in_set_conv_nth)
    show "ys ! j \<le> x"
    proof (cases "i = j")
      case True
      then show ?thesis using i by simp
    next
      case False
      then have "i < j" using i by simp
      then show ?thesis using assms i by (simp add: sorted_wrt_iff_nth_less)
    qed
  qed
  then have "filter (\<lambda>x. ys ! j \<le> x) (take (Suc j) ys) = take (Suc j) ys"
    by (simp add: filter_id_conv)
  moreover have "filter (\<lambda>x. ys ! j \<le> x) ys =
      filter (\<lambda>x. ys ! j \<le> x) (take (Suc j) ys) @ filter (\<lambda>x. ys ! j \<le> x) (drop (Suc j) ys)"
    by (metis append_take_drop_id filter_append)
  ultimately show ?thesis using assms(2) by simp
qed

lemma desc_count_gt:
  assumes "sorted_wrt (\<ge>) (ys :: real list)" "j < length ys"
  shows "length (filter (\<lambda>x. ys ! j < x) ys) \<le> j"
proof -
  have "\<forall>x \<in> set (drop j ys). \<not> ys ! j < x"
  proof
    fix x assume "x \<in> set (drop j ys)"
    then obtain i where i: "j \<le> i" "i < length ys" "x = ys ! i"
      by (auto simp: in_set_conv_nth) (metis le_add1 less_diff_conv add.commute)
    show "\<not> ys ! j < x"
    proof (cases "i = j")
      case True
      then show ?thesis using i by simp
    next
      case False
      then have "j < i" using i by simp
      then have "ys ! i \<le> ys ! j" using assms i by (simp add: sorted_wrt_iff_nth_less)
      then show ?thesis using i by simp
    qed
  qed
  then have "filter (\<lambda>x. ys ! j < x) (drop j ys) = []"
    by (simp add: filter_empty_conv)
  moreover have "filter (\<lambda>x. ys ! j < x) ys =
      filter (\<lambda>x. ys ! j < x) (take j ys) @ filter (\<lambda>x. ys ! j < x) (drop j ys)"
    by (metis append_take_drop_id filter_append)
  ultimately have "length (filter (\<lambda>x. ys ! j < x) ys) = length (filter (\<lambda>x. ys ! j < x) (take j ys))"
    by simp
  also have "\<dots> \<le> length (take j ys)" by (rule length_filter_le)
  also have "\<dots> \<le> j" by simp
  finally show ?thesis .
qed

lemma sorted_desc_kth:
  assumes "1 \<le> k" "k \<le> length xs"
  shows "is_kth_largest k xs (sorted_desc xs ! (k - 1))"
proof -
  let ?ys = "sorted_desc xs"
  let ?v = "?ys ! (k - 1)"
  have j: "k - 1 < length ?ys" using assms by (simp add: sorted_desc_length)
  have "?v \<in> set ?ys" using j by simp
  then have m: "?v \<in> set xs" using sorted_desc_mset by (metis set_mset_mset)
  have "length (filter (\<lambda>x. ?v < x) ?ys) \<le> k - 1"
    using desc_count_gt[OF sorted_desc_sorted j] .
  then have a: "length (filter (\<lambda>x. ?v < x) xs) < k"
    using length_filter_mset_eq[OF sorted_desc_mset, of "\<lambda>x. ?v < x" xs] assms(1) by simp
  have "Suc (k - 1) \<le> length (filter (\<lambda>x. ?v \<le> x) ?ys)"
    using desc_count_ge[OF sorted_desc_sorted j] .
  then have b: "k \<le> length (filter (\<lambda>x. ?v \<le> x) xs)"
    using length_filter_mset_eq[OF sorted_desc_mset, of "\<lambda>x. ?v \<le> x" xs] assms(1) by simp
  from m a b show ?thesis by (simp add: is_kth_largest_def)
qed

lemma is_kth_largest_unique:
  assumes "is_kth_largest k xs v" "is_kth_largest k xs w"
  shows "v = w"
proof (rule ccontr)
  assume ne: "v \<noteq> w"
  have aux: "False" if "is_kth_largest k xs a" "is_kth_largest k xs b" "a < b" for a b
  proof -
    have "set (filter (\<lambda>x. b \<le> x) xs) \<subseteq> set (filter (\<lambda>x. a < x) xs)" using that(3) by auto
    have "length (filter (\<lambda>x. b \<le> x) xs) \<le> length (filter (\<lambda>x. a < x) xs)"
    proof -
      have "filter (\<lambda>x. b \<le> x) xs = filter (\<lambda>x. b \<le> x) (filter (\<lambda>x. a < x) xs)"
        using that(3) by (auto intro!: filter_cong)
      then show ?thesis by (metis length_filter_le)
    qed
    with that(1,2) show False by (simp add: is_kth_largest_def)
  qed
  from ne have "v < w \<or> w < v" by auto
  then show False using aux assms by blast
qed

lemma length_select_indices:
  "length (select_indices scores t) = length (filter (\<lambda>s. t \<le> s) scores)"
  by (induction scores rule: rev_induct) (simp_all add: select_indices_def enumerate_append_eq)

subsection \<open>Selection by threshold\<close>

lemma py_int_floor: "0 \<le> x \<Longrightarrow> py_int x = \<lfloor>x\<rfloor>"
  by (simp add: py_int_def)

lemma keep_count_floor:
  assumes "0 \<le> min_tokens cfg"
  shows "keep_count env cfg target n = max (min_tokens cfg) \<lfloor>float_mul env (real n) target\<rfloor>"
proof (cases "0 \<le> float_mul env (real n) target")
  case True
  then show ?thesis by (simp add: keep_count_def py_int_floor)
next
  case False
  then have f: "\<lfloor>float_mul env (real n) target\<rfloor> \<le> 0" and c: "\<lceil>float_mul env (real n) target\<rceil> \<le> 0"
    by (simp_all add: floor_le_iff ceiling_le_iff)
  have "max (min_tokens cfg) \<lceil>float_mul env (real n) target\<rceil> = min_tokens cfg"
    using assms c by linarith
  moreover have "max (min_tokens cfg) \<lfloor>float_mul env (real n) target\<rfloor> = min_tokens cfg"
    using assms f by linarith
  ultimately show ?thesis using False by (simp add: keep_count_def py_int_def)
qed

lemma find_threshold_all:
  "int n \<le> k \<Longrightarrow> find_threshold cfg scores k n = Inr 0"
  by (simp add: find_threshold_def)

lemma find_threshold_kth:
  assumes "1 \<le> k" "k < int n" "n \<le> length scores"
  shows "find_threshold cfg scores k n =
           Inr (max (sorted_desc scores ! (nat k - 1)) (hard_threshold cfg))"
proof -
  have "0 \<le> k - 1" "k - 1 < int (length (sorted_desc scores))"
    using assms by (simp_all add: sorted_desc_length)
  then have "np_index (sorted_desc scores) (k - 1) = Inr (sorted_desc scores ! nat (k - 1))"
    by (simp add: np_index_def)
  moreover have "nat (k - 1) = nat k - 1" by simp
  ultimately show ?thesis using assms by (simp add: find_threshold_def)
qed

text \<open>The facts every later property of a successful call rests on.\<close>

lemma compress_selection:
  assumes "compress env cfg text query override = Inr r"
  obtains threshold where
    "score_tokens env cfg text query =
       Inr (token_scores r, map fst (tokenizer env text (chunk_size cfg)),
            map snd (tokenizer env text (chunk_size cfg)))"
    "find_threshold cfg (token_scores r)
       (keep_count env cfg (effective_target cfg override) (length (tokenizer env text (chunk_size cfg))))
       (length (tokenizer env text (chunk_size cfg))) = Inr threshold"
    "kept_indices r = select_indices (token_scores r) threshold"
    "kept_indices r = filter (\<lambda>i. threshold \<le> token_scores r ! i)
       [0..<length (tokenizer env text (chunk_size cfg))]"
    "length (tokenizer env text (chunk_size cfg)) \<le> length (token_scores r)"
proof -
  let ?n = "length (tokenizer env text (chunk_size cfg))"
  from assms obtain scores tokens token_ids threshold where
    st: "score_tokens env cfg text query = Inr (scores, tokens, token_ids)" and
    th: "find_threshold cfg scores (keep_count env cfg (effective_target cfg override) (length tokens))
       (length tokens) = Inr threshold" and
    g: "gather tokens (select_indices scores threshold) =
       Inr (map ((!) tokens) (select_indices scores threshold))" and
    r: "token_scores r = scores" "kept_indices r = select_indices scores threshold"
    by (rule compress_Inr) simp
  have tk: "tokens = map fst (tokenizer env text (chunk_size cfg))"
       "token_ids = map snd (tokenizer env text (chunk_size cfg))"
    using score_tokens_tokens[OF st] by simp_all
  have len: "?n \<le> length scores" using score_tokens_length[OF st] tk by simp
  have b: "\<forall>i \<in> set (select_indices scores threshold). i < ?n"
    using gather_Inr[OF g] tk by simp
  have "select_indices scores threshold = filter (\<lambda>i. threshold \<le> scores ! i) [0..<?n]"
  proof -
    have "[0..<length scores] = [0..<?n] @ [?n..<length scores]"
      using len by (metis le_add_diff_inverse upt_add_eq_append zero_le)
    moreover have "filter (\<lambda>i. threshold \<le> scores ! i) [?n..<length scores] = []"
      using b by (auto simp: select_indices_eq filter_empty_conv)
    ultimately show ?thesis by (simp add: select_indices_eq)
  qed
  with st th r tk len show ?thesis using that by simp
qed

lemma compress_keeps_all:
  assumes "compress env cfg text query override = Inr r"
    "int (length (tokenizer env text (chunk_size cfg))) \<le>
       keep_count env cfg (effective_target cfg override) (length (tokenizer env text (chunk_size cfg)))"
  shows "kept_indices r = [0..<length (tokenizer env text (chunk_size cfg))] \<and>
         length (token_scores r) = length (tokenizer env text (chunk_size cfg))"
proof -
  let ?n = "length (tokenizer env text (chunk_size cfg))"
  let ?k = "keep_count env cfg (effective_target cfg override) ?n"
  let ?sc = "token_scores r"
  from assms(1) obtain threshold where
    st: "score_tokens env cfg text query =
       Inr (?sc, map fst (tokenizer env text (chunk_size cfg)),
            map snd (tokenizer env text (chunk_size cfg)))" and
    th: "find_threshold cfg ?sc ?k ?n = Inr threshold" and
    sel: "kept_indices r = select_indices ?sc threshold" and
    kept: "kept_indices r = filter (\<lambda>i. threshold \<le> ?sc ! i) [0..<?n]" and
    len: "?n \<le> length ?sc"
    by (rule compress_selection)
  have nonneg: "\<forall>s \<in> set ?sc. 0 \<le> s" using score_tokens_range[OF st] by blast
  have t0: "threshold = 0" using th assms(2) by (simp add: find_threshold_all)
  have all: "select_indices ?sc threshold = [0..<length ?sc]"
    unfolding select_indices_eq t0 using nonneg by (simp add: filter_id_conv)
  have "length (kept_indices r) \<le> ?n" unfolding kept
    by (metis length_filter_le length_upt diff_zero)
  then have "length ?sc \<le> ?n" using sel all by simp
  with len have "length ?sc = ?n" by simp
  with sel all show ?thesis by simp
qed

lemma compress_keeps_kth:
  assumes "compress env cfg text query override = Inr r"
    "1 \<le> keep_count env cfg (effective_target cfg override) (length (tokenizer env text (chunk_size cfg)))"
    "keep_count env cfg (effective_target cfg override) (length (tokenizer env text (chunk_size cfg)))
       < int (length (tokenizer env text (chunk_size cfg)))"
  shows "is_kth_largest
           (nat (keep_count env cfg (effective_target cfg override)
              (length (tokenizer env text (chunk_size cfg)))))
           (token_scores r)
           (sorted_desc (token_scores r) !
              (nat (keep_count env cfg (effective_target cfg override)
                 (length (tokenizer env text (chunk_size cfg)))) - 1)) \<and>
         kept_indices r =
           select_indices (token_scores r)
             (max (sorted_desc (token_scores r) !
                (nat (keep_count env cfg (effective_target cfg override)
                   (length (tokenizer env text (chunk_size cfg)))) - 1)) (hard_threshold cfg)) \<and>
         kept_indices r =
           filter (\<lambda>i. max (sorted_desc (token_scores r) !
                (nat (keep_count env cfg (effective_target cfg override)
                   (length (tokenizer env text (chunk_size cfg)))) - 1)) (hard_threshold cfg)
                \<le> token_scores r ! i)
             [0..<length (tokenizer env text (chunk_size cfg))]"
proof -
  let ?n = "length (tokenizer env text (chunk_size cfg))"
  let ?k = "keep_count env cfg (effective_target cfg override) ?n"
  let ?sc = "token_scores r"
  from assms(1) obtain threshold where
    th: "find_threshold cfg ?sc ?k ?n = Inr threshold" and
    sel: "kept_indices r = select_indices ?sc threshold" and
    kept: "kept_indices r = filter (\<lambda>i. threshold \<le> ?sc ! i) [0..<?n]" and
    len: "?n \<le> length ?sc"
    by (rule compress_selection)
  have "threshold = max (sorted_desc ?sc ! (nat ?k - 1)) (hard_threshold cfg)"
    using th len assms(2,3) find_threshold_kth[of ?k ?n ?sc cfg] by simp
  moreover have "is_kth_largest (nat ?k) ?sc (sorted_desc ?sc ! (nat ?k - 1))"
    using assms(2,3) len by (intro sorted_desc_kth) auto
  ultimately show ?thesis using kept sel by simp
qed

theorem selection_by_threshold:
  assumes "compress env cfg text query override = Inr r"
  shows "(let toks = tokenizer env text (chunk_size cfg);
              n = length toks;
              scores = token_scores r;
              k = keep_count env cfg (effective_target cfg override) n
          in score_tokens env cfg text query = Inr (scores, map fst toks, map snd toks) \<and>
             k = max (min_tokens cfg) (py_int (float_mul env (real n) (effective_target cfg override))) \<and>
             (0 \<le> min_tokens cfg \<longrightarrow>
                k = max (min_tokens cfg) \<lfloor>float_mul env (real n) (effective_target cfg override)\<rfloor>) \<and>
             (int n \<le> k \<longrightarrow> kept_indices r = [0..<n] \<and> length scores = n) \<and>
             (1 \<le> k \<and> k < int n \<longrightarrow>
                is_kth_largest (nat k) scores (sorted_desc scores ! (nat k - 1)) \<and>
                kept_indices r =
                  filter (\<lambda>i. max (sorted_desc scores ! (nat k - 1)) (hard_threshold cfg) \<le> scores ! i)
                    [0..<n]))"
proof -
  let ?n = "length (tokenizer env text (chunk_size cfg))"
  let ?k = "keep_count env cfg (effective_target cfg override) ?n"
  from assms obtain threshold where
    st: "score_tokens env cfg text query =
       Inr (token_scores r, map fst (tokenizer env text (chunk_size cfg)),
            map snd (tokenizer env text (chunk_size cfg)))"
    by (rule compress_selection)
  have a: "?k = max (min_tokens cfg) (py_int (float_mul env (real ?n) (effective_target cfg override)))"
    by (simp add: keep_count_def)
  have b: "0 \<le> min_tokens cfg \<longrightarrow>
      ?k = max (min_tokens cfg) \<lfloor>float_mul env (real ?n) (effective_target cfg override)\<rfloor>"
    using keep_count_floor by simp
  have c: "int ?n \<le> ?k \<longrightarrow> kept_indices r = [0..<?n] \<and> length (token_scores r) = ?n"
    using compress_keeps_all[OF assms] by (rule impI)
  have d: "1 \<le> ?k \<and> ?k < int ?n \<longrightarrow>
      is_kth_largest (nat ?k) (token_scores r) (sorted_desc (token_scores r) ! (nat ?k - 1)) \<and>
      kept_indices r =
        filter (\<lambda>i. max (sorted_desc (token_scores r) ! (nat ?k - 1)) (hard_threshold cfg)
                  \<le> token_scores r ! i) [0..<?n]"
  proof
    assume k: "1 \<le> ?k \<and> ?k < int ?n"
    note h = compress_keeps_kth[OF assms conjunct1[OF k] conjunct2[OF k]]
    show "is_kth_largest (nat ?k) (token_scores r) (sorted_desc (token_scores r) ! (nat ?k - 1)) \<and>
      kept_indices r =
        filter (\<lambda>i. max (sorted_desc (token_scores r) ! (nat ?k - 1)) (hard_threshold cfg)
                  \<le> token_scores r ! i) [0..<?n]"
      using h[THEN conjunct1] h[THEN conjunct2, THEN conjunct2] by (rule conjI)
  qed
  show ?thesis unfolding Let_def by (intro conjI st a b c d)
qed

lemma filter_length_all:
  assumes "length (filter P xs) = length xs"
  shows "\<forall>x \<in> set xs. P x"
proof (rule ccontr)
  assume "\<not> (\<forall>x \<in> set xs. P x)"
  then obtain x where "x \<in> set xs" "\<not> P x" by blast
  then have "length (filter P xs) < length xs" by (rule length_filter_less)
  with assms show False by linarith
qed

lemma length_filter_upt_le: "length (filter P [0..<n]) \<le> n"
proof -
  have "length (filter P [0..<n]) \<le> length [0..<n]" by (rule length_filter_le)
  then show ?thesis by simp
qed

text \<open>
  Claim C3, as amended. With a hard threshold that is not positive, the number \<open>K\<close> of
  kept encoder tokens of a returning call satisfies \<open>min(min_tokens, n) \<le> K \<le> n\<close> and
  \<open>min(k, n) \<le> K\<close>, for \<open>n\<close> the number of encoder tokens and \<open>k\<close> the keep count; \<open>K = n\<close>
  when \<open>k \<ge> n\<close>, and when \<open>1 \<le> k < n\<close> only if every token's score ties at or above the
  \<open>k\<close>-th largest. The reported counts are those of the external counter on the input
  text and on the reconstructed text.
\<close>

theorem kept_count_bounds:
  assumes "compress env cfg text query override = Inr r" "hard_threshold cfg \<le> 0"
  shows "(let n = length (tokenizer env text (chunk_size cfg));
              kept_count = length (kept_indices r);
              k = keep_count env cfg (effective_target cfg override) n
          in kept_count \<le> n \<and>
             min (min_tokens cfg) (int n) \<le> int kept_count \<and>
             min k (int n) \<le> int kept_count \<and>
             (int n \<le> k \<longrightarrow> kept_count = n) \<and>
             (1 \<le> k \<and> k < int n \<and> kept_count = n \<longrightarrow>
                (\<forall>i < n. sorted_desc (token_scores r) ! (nat k - 1) \<le> token_scores r ! i)) \<and>
             original_tokens r = count_tokens env text \<and>
             compressed_tokens r = count_tokens env (compressed_text r))"
proof -
  let ?n = "length (tokenizer env text (chunk_size cfg))"
  let ?k = "keep_count env cfg (effective_target cfg override) ?n"
  let ?sc = "token_scores r"
  let ?K = "length (kept_indices r)"
  let ?v = "sorted_desc ?sc ! (nat ?k - 1)"
  from assms(1) obtain threshold where
    st: "score_tokens env cfg text query =
       Inr (?sc, map fst (tokenizer env text (chunk_size cfg)),
            map snd (tokenizer env text (chunk_size cfg)))" and
    kept: "kept_indices r = filter (\<lambda>i. threshold \<le> ?sc ! i) [0..<?n]"
    by (rule compress_selection)
  have nonneg: "\<forall>s \<in> set ?sc. 0 \<le> s" using score_tokens_range[OF st] by blast
  have le: "?K \<le> ?n" unfolding kept by (rule length_filter_upt_le)
  have all: "int ?n \<le> ?k \<longrightarrow> ?K = ?n" using compress_keeps_all[OF assms(1)] by simp
  have kth: "1 \<le> ?k \<and> ?k < int ?n \<longrightarrow>
      nat ?k \<le> ?K \<and> kept_indices r = filter (\<lambda>i. ?v \<le> ?sc ! i) [0..<?n]"
  proof
    assume k: "1 \<le> ?k \<and> ?k < int ?n"
    note h = compress_keeps_kth[OF assms(1) conjunct1[OF k] conjunct2[OF k]]
    have kl: "is_kth_largest (nat ?k) ?sc ?v" by (rule h[THEN conjunct1])
    have sel: "kept_indices r = select_indices ?sc (max ?v (hard_threshold cfg))"
      by (rule h[THEN conjunct2, THEN conjunct1])
    have flt: "kept_indices r = filter (\<lambda>i. max ?v (hard_threshold cfg) \<le> ?sc ! i) [0..<?n]"
      by (rule h[THEN conjunct2, THEN conjunct2])
    have "0 \<le> ?v" using kl nonneg by (simp add: is_kth_largest_def)
    then have m: "max ?v (hard_threshold cfg) = ?v" using assms(2) by simp
    have "?K = length (filter (\<lambda>s. ?v \<le> s) ?sc)"
      unfolding sel m by (rule length_select_indices)
    moreover have "nat ?k \<le> length (filter (\<lambda>s. ?v \<le> s) ?sc)"
      using kl unfolding is_kth_largest_def by blast
    ultimately have "nat ?k \<le> ?K" by linarith
    then show "nat ?k \<le> ?K \<and> kept_indices r = filter (\<lambda>i. ?v \<le> ?sc ! i) [0..<?n]"
      using flt[unfolded m] by blast
  qed
  have lower: "min ?k (int ?n) \<le> int ?K"
  proof (cases "int ?n \<le> ?k")
    case True
    then show ?thesis using all by simp
  next
    case False
    show ?thesis
    proof (cases "1 \<le> ?k")
      case True
      from False have "?k < int ?n" by simp
      with True kth have "nat ?k \<le> ?K" by blast
      with True show ?thesis by linarith
    next
      case False
      then show ?thesis by simp
    qed
  qed
  have "min_tokens cfg \<le> ?k" by (simp add: keep_count_def)
  with lower have lower': "min (min_tokens cfg) (int ?n) \<le> int ?K" by simp
  have ties: "1 \<le> ?k \<and> ?k < int ?n \<and> ?K = ?n \<longrightarrow> (\<forall>i < ?n. ?v \<le> ?sc ! i)"
  proof (intro impI allI)
    fix i assume k: "1 \<le> ?k \<and> ?k < int ?n \<and> ?K = ?n" and i: "i < ?n"
    from k have k1: "1 \<le> ?k \<and> ?k < int ?n" and Kn: "?K = ?n" by blast+
    have flt: "kept_indices r = filter (\<lambda>i. ?v \<le> ?sc ! i) [0..<?n]" using kth k1 by blast
    have e1: "?K = length (filter (\<lambda>i. ?v \<le> ?sc ! i) [0..<?n])"
      using arg_cong[OF flt, of length] .
    have e2: "length [0..<?n] = ?n" by simp
    have "length (filter (\<lambda>i. ?v \<le> ?sc ! i) [0..<?n]) = length [0..<?n]"
      using e1 e2 Kn by linarith
    then have "\<forall>j \<in> set [0..<?n]. ?v \<le> ?sc ! j"
      by (rule filter_length_all)
    with i show "?v \<le> ?sc ! i" by simp
  qed
  from assms(1) have cnt: "original_tokens r = count_tokens env text \<and>
      compressed_tokens r = count_tokens env (compressed_text r)"
    by (rule compress_Inr) simp
  show ?thesis unfolding Let_def
    by (intro conjI le lower lower' all ties cnt[THEN conjunct1] cnt[THEN conjunct2])
qed

subsection \<open>The selection on the examples\<close>

lemma example_run_all:
  "compress example_env default_config ''The cat sat down'' None None = Inr example_result_all"
  by (simp add: eval_defs example_result_all_def example_result_def)

lemma example_run_hard:
  "compress example_env (default_config\<lparr>min_tokens := 2, hard_threshold := 9 / 10\<rparr>)
     ''The cat sat down'' None None = Inr example_result_hard"
  by (simp add: eval_defs Let_def example_result_hard_def example_result_def)

lemma example_run_abcd:
  "compress example_env (default_config\<lparr>min_tokens := 4\<rparr>) ''a b c d'' None (Some 1) =
     Inr example_result_abcd"
  by (simp add: eval_defs example_result_abcd_def)

lemma example_run_empty:
  "compress example_env default_config '''' None None = Inr example_result_empty"
  by (simp add: eval_defs example_result_empty_def)

lemma example_run_empty_one:
  "compress example_env (default_config\<lparr>min_tokens := 1\<rparr>) '''' None None = Inr example_result_empty"
  by (simp add: eval_defs example_result_empty_def)

lemma example_sorted:
  "sorted_desc (token_scores example_result) =
     [10600000123000000000000000 / 10600000473000005950000021,
      6000000030000000000000000 / 10600000473000005950000021,
      3000000015000000000000000 / 10600000473000005950000021,
      1500000007500000000000000 / 10600000473000005950000021, 0, 0]"
  by (simp add: sorted_desc_def example_result_def)

theorem selection_counts_structural_tokens_counterexample:
  "compress example_env (default_config\<lparr>min_tokens := 1\<rparr>) ''The cat sat down'' None None =
     Inr example_result \<and>
   kept_indices example_result = [1, 4] \<and>
   content_count (all_special_ids example_env) [101, 1003, 1003, 1003, 1004, 102] = 4 \<and>
   claimed_selection (default_config\<lparr>min_tokens := 1\<rparr>) (target_ratio default_config)
     (all_special_ids example_env) [101, 1003, 1003, 1003, 1004, 102]
     (token_scores example_result) = [4]"
proof -
  have c: "content_count (all_special_ids example_env) [101, 1003, 1003, 1003, 1004, 102] = 4"
    by (simp add: content_count_def example_env_def)
  have k: "max (min_tokens (default_config\<lparr>min_tokens := 1\<rparr>))
             \<lfloor>real 4 * target_ratio default_config\<rfloor> = 1"
    by (simp add: default_config_def)
  have "claimed_selection (default_config\<lparr>min_tokens := 1\<rparr>) (target_ratio default_config)
     (all_special_ids example_env) [101, 1003, 1003, 1003, 1004, 102]
     (token_scores example_result) = [4]"
    unfolding claimed_selection_def Let_def c k example_sorted
    by (simp add: example_result_def default_config_def upt_rec)
  with c example_run show ?thesis by (simp add: example_result_def)
qed

lemma example_tokens:
  "tokenizer example_env ''The cat sat down'' (chunk_size default_config) =
     [(''[CLS]'', 101), (''the'', 1003), (''cat'', 1003), (''sat'', 1003), (''down'', 1004), (''[SEP]'', 102)]"
  by (simp add: eval_defs)

theorem selection_by_threshold_witness:
  "compress example_env (default_config\<lparr>min_tokens := 1\<rparr>) ''The cat sat down'' None None =
     Inr example_result \<and>
   keep_count example_env (default_config\<lparr>min_tokens := 1\<rparr>)
     (effective_target (default_config\<lparr>min_tokens := 1\<rparr>) None) 6 = 2 \<and>
   is_kth_largest 2 (token_scores example_result)
     (6000000030000000000000000 / 10600000473000005950000021) \<and>
   kept_indices example_result =
     filter (\<lambda>i. max (6000000030000000000000000 / 10600000473000005950000021) 0
                   \<le> token_scores example_result ! i) [0..<6] \<and>
   kept_indices example_result = [1, 4] \<and>
   compress example_env default_config ''The cat sat down'' None None = Inr example_result_all \<and>
   keep_count example_env default_config (effective_target default_config None) 6 = 50 \<and>
   kept_indices example_result_all = [0..<6]"
proof -
  let ?c = "default_config\<lparr>min_tokens := 1\<rparr>"
  have n: "length (tokenizer example_env ''The cat sat down'' (chunk_size ?c)) = 6"
    using example_tokens by (simp add: default_config_def)
  have k: "keep_count example_env ?c (effective_target ?c None) 6 = 2"
    by (simp add: keep_count_def effective_target_def example_env_def default_config_def py_int_def)
  have s1: "sorted_desc (token_scores example_result) ! (nat 2 - 1) =
      6000000030000000000000000 / 10600000473000005950000021"
    by (simp add: example_sorted)
  have h: "hard_threshold ?c = 0" by (simp add: default_config_def)
  note t = selection_by_threshold[OF example_run, unfolded Let_def n k s1 h]
  have p: "1 \<le> (2::int) \<and> 2 < int 6" by simp
  from t p have a: "is_kth_largest (nat 2) (token_scores example_result)
     (6000000030000000000000000 / 10600000473000005950000021) \<and>
   kept_indices example_result =
     filter (\<lambda>i. max (6000000030000000000000000 / 10600000473000005950000021) 0
                   \<le> token_scores example_result ! i) [0..<6]" by blast
  have n2: "length (tokenizer example_env ''The cat sat down'' (chunk_size default_config)) = 6"
    using example_tokens by simp
  have k2: "keep_count example_env default_config (effective_target default_config None) 6 = 50"
    by (simp add: keep_count_def effective_target_def example_env_def default_config_def py_int_def)
  note t2 = selection_by_threshold[OF example_run_all, unfolded Let_def n2 k2]
  have p2: "int 6 \<le> (50::int)" by simp
  from t2 p2 have b: "kept_indices example_result_all = [0..<6]" by blast
  have e: "kept_indices example_result = [1, 4]" by (simp add: example_result_def)
  have n22: "nat 2 = 2" by simp
  from a b k k2 e example_run example_run_all show ?thesis unfolding n22 by blast
qed

theorem kept_count_bounds_witness:
  "hard_threshold (default_config\<lparr>min_tokens := 1\<rparr>) \<le> 0 \<and>
   compress example_env (default_config\<lparr>min_tokens := 1\<rparr>) ''The cat sat down'' None None =
     Inr example_result \<and>
   length (kept_indices example_result) = 2 \<and>
   length (kept_indices example_result) \<le> 6 \<and>
   min (min_tokens (default_config\<lparr>min_tokens := 1\<rparr>)) (int 6) \<le> int (length (kept_indices example_result)) \<and>
   compress example_env default_config ''The cat sat down'' None None = Inr example_result_all \<and>
   length (kept_indices example_result_all) = 6 \<and>
   compress example_env (default_config\<lparr>min_tokens := 1\<rparr>) '''' None None = Inr example_result_empty \<and>
   length (kept_indices example_result_empty) = 2 \<and>
   sorted_desc (token_scores example_result_empty) ! 0 \<le> token_scores example_result_empty ! 1"
proof -
  let ?c = "default_config\<lparr>min_tokens := 1\<rparr>"
  have h: "hard_threshold ?c \<le> 0" by (simp add: default_config_def)
  have h2: "hard_threshold default_config \<le> 0" by (simp add: default_config_def)
  have n: "length (tokenizer example_env ''The cat sat down'' (chunk_size ?c)) = 6"
    using example_tokens by (simp add: default_config_def)
  have n2: "length (tokenizer example_env ''The cat sat down'' (chunk_size default_config)) = 6"
    using example_tokens by simp
  have n3: "length (tokenizer example_env '''' (chunk_size ?c)) = 2"
    by (simp add: eval_defs)
  have k2: "keep_count example_env default_config (effective_target default_config None) 6 = 50"
    by (simp add: keep_count_def effective_target_def example_env_def default_config_def py_int_def)
  have k3: "keep_count example_env ?c (effective_target ?c None) 2 = 1"
    by (simp add: keep_count_def effective_target_def example_env_def default_config_def py_int_def)
  note t = kept_count_bounds[OF example_run h, unfolded Let_def n]
  note t2 = kept_count_bounds[OF example_run_all h2, unfolded Let_def n2 k2]
  note t3 = kept_count_bounds[OF example_run_empty_one h, unfolded Let_def n3 k3]
  have a: "length (kept_indices example_result) \<le> 6 \<and>
     min (min_tokens ?c) (int 6) \<le> int (length (kept_indices example_result))"
    using t by blast
  have p2: "int 6 \<le> (50::int)" by simp
  from t2 p2 have b: "length (kept_indices example_result_all) = 6" by blast
  have l3: "length (kept_indices example_result_empty) = 2" by (simp add: example_result_empty_def)
  have p3: "1 \<le> (1::int) \<and> 1 < int 2 \<and> length (kept_indices example_result_empty) = 2"
    using l3 by simp
  from t3 p3 have "\<forall>i<2. sorted_desc (token_scores example_result_empty) ! (nat 1 - 1)
      \<le> token_scores example_result_empty ! i" by blast
  then have c: "sorted_desc (token_scores example_result_empty) ! 0 \<le> token_scores example_result_empty ! 1"
    by simp
  have l1: "length (kept_indices example_result) = 2" by (simp add: example_result_def)
  from h a b c l1 l3 example_run example_run_all example_run_empty_one show ?thesis by blast
qed

theorem reported_counts_counterexample:
  "compress example_env (default_config\<lparr>min_tokens := 4\<rparr>) ''a b c d'' None (Some 1) =
     Inr example_result_abcd \<and>
   min_tokens (default_config\<lparr>min_tokens := 4\<rparr>) \<le> int (original_tokens example_result_abcd) \<and>
   \<not> compressed_tokens example_result_abcd \<le> original_tokens example_result_abcd \<and>
   compress example_env (default_config\<lparr>min_tokens := 2, hard_threshold := 9 / 10\<rparr>)
     ''The cat sat down'' None None = Inr example_result_hard \<and>
   min_tokens (default_config\<lparr>min_tokens := 2, hard_threshold := 9 / 10\<rparr>)
     \<le> int (original_tokens example_result_hard) \<and>
   \<not> min_tokens (default_config\<lparr>min_tokens := 2, hard_threshold := 9 / 10\<rparr>)
     \<le> int (compressed_tokens example_result_hard)"
  using example_run_abcd example_run_hard
  by (simp add: example_result_abcd_def example_result_hard_def)

end
